theory Spec2Isabelle
  imports Complex_Main "HOL-Library.Log_Nat"
begin

section \<open>JavaScript values read by dashboard.js\<close>

text \<open>
  A string-valued JSON field is absent (\<open>Undefined\<close>), \<open>null\<close> or a string. The
  dashboard tests such fields for truthiness (\<open>x ? a : b\<close>, \<open>x || d\<close>),
  interpolates them into template literals (\<open>${x}\<close>) and assigns them to
  \<open>textContent\<close>.
\<close>

datatype jsstr = Undefined | Null | Str string

definition truthy :: "jsstr \<Rightarrow> bool" where
  "truthy v = (case v of Str s \<Rightarrow> s \<noteq> [] | _ \<Rightarrow> False)"

text \<open>\<open>${v}\<close> inside a template literal.\<close>

definition tpl :: "jsstr \<Rightarrow> string" where
  "tpl v = (case v of Undefined \<Rightarrow> ''undefined'' | Null \<Rightarrow> ''null'' | Str s \<Rightarrow> s)"

text \<open>\<open>v || d\<close> with a string default \<open>d\<close>.\<close>

definition or_else :: "jsstr \<Rightarrow> string \<Rightarrow> string" where
  "or_else v d = (case v of Str s \<Rightarrow> (if s = [] then d else s) | _ \<Rightarrow> d)"

text \<open>\<open>el.textContent = v\<close>: \<open>null\<close> and \<open>undefined\<close> leave the element empty.\<close>

definition text_of :: "jsstr \<Rightarrow> string" where
  "text_of v = (case v of Str s \<Rightarrow> s | _ \<Rightarrow> [])"

text \<open>The non-ASCII characters of the templates, as their UTF-8 bytes.\<close>

definition em_dash :: string where
  "em_dash = [CHR 0xE2, CHR 0x80, CHR 0x94]"

definition note_emoji :: string where
  "note_emoji = [CHR 0xF0, CHR 0x9F, CHR 0x8E, CHR 0xB5]"

definition wave_emoji :: string where
  "wave_emoji = [CHR 0xF0, CHR 0x9F, CHR 0x91, CHR 0x8B]"

definition star_emoji :: string where
  "star_emoji = [CHR 0xE2, CHR 0xAD, CHR 0x90]"

definition cross_emoji :: string where
  "cross_emoji = [CHR 0xE2, CHR 0x9D, CHR 0x8C]"

definition middle_dot :: string where
  "middle_dot = [CHR 0xC2, CHR 0xB7]"

section \<open>Numbers\<close>

text \<open>
  A JavaScript Number is an IEEE 754 double. The model carries the exact value of a
  finite double as a rational; \<open>to_double\<close> rounds an exact result to the nearest
  double, ties to even (53-bit significand, normal range: the quotients and differences
  of this file lie far from overflow and from the subnormals).
\<close>

definition digit_char :: "nat \<Rightarrow> char" where
  "digit_char d = ''0123456789'' ! d"

text \<open>The decimal digits of a natural number.\<close>

fun show_nat :: "nat \<Rightarrow> string" where
  "show_nat n = (if n < 10 then [digit_char n] else show_nat (n div 10) @ [digit_char (n mod 10)])"

declare show_nat.simps [simp del]

definition show_int :: "int \<Rightarrow> string" where
  "show_int i = (if i < 0 then ''-'' @ show_nat (nat (- i)) else show_nat (nat i))"

text \<open>The number a string of decimal digits denotes, to say what \<open>show_nat\<close> prints.\<close>

definition digit_val :: "char \<Rightarrow> nat" where
  "digit_val c = of_char c - 48"

definition read_nat :: "string \<Rightarrow> nat" where
  "read_nat s = foldl (\<lambda>a c. 10 * a + digit_val c) 0 s"

definition round_half_even :: "rat \<Rightarrow> int" where
  "round_half_even x =
     (let f = \<lfloor>x\<rfloor>; r = x - of_int f
      in if r < 1 / 2 then f else if 1 / 2 < r then f + 1 else if even f then f else f + 1)"

text \<open>The binary exponent \<open>e\<close> of a positive \<open>x\<close>: \<open>2^e \<le> x < 2^(e+1)\<close>.\<close>

definition ilog2 :: "rat \<Rightarrow> int" where
  "ilog2 x = (if 1 \<le> x then int (floorlog 2 (nat \<lfloor>x\<rfloor>)) - 1
              else - int (floorlog 2 (nat (\<lceil>1 / x\<rceil> - 1))))"

definition to_double :: "rat \<Rightarrow> rat" where
  "to_double x =
     (if x = 0 then 0
      else let a = \<bar>x\<bar>; u = 2 powi (ilog2 a - 52)
           in sgn x * of_int (round_half_even (a / u)) * u)"

text \<open>The operators \<open>a / b\<close> and \<open>a - b\<close> on Numbers.\<close>

definition js_div :: "rat \<Rightarrow> rat \<Rightarrow> rat" where
  "js_div a b = to_double (a / b)"

definition js_sub :: "rat \<Rightarrow> rat \<Rightarrow> rat" where
  "js_sub a b = to_double (a - b)"

text \<open>The numeral of \<open>k / 10\<close> with one fractional digit: \<open>15\<close> is written \<open>1.5\<close>.\<close>

definition one_decimal :: "nat \<Rightarrow> string" where
  "one_decimal k = show_nat (k div 10) @ ''.'' @ show_nat (k mod 10)"

text \<open>
  \<open>Number.prototype.toString\<close> (ECMAScript, Number::toString with radix 10) writes a
  positive \<open>x\<close> from integers \<open>n\<close>, \<open>k\<close> and \<open>s\<close> with \<open>k \<ge> 1\<close>,
  \<open>10^(k-1) \<le> s < 10^k\<close> and \<open>s * 10^(n-k)\<close> rounding to \<open>x\<close>, where \<open>k\<close> is as
  small as possible and, of several \<open>s\<close>, the one with \<open>s * 10^(n-k)\<close> closest to
  \<open>x\<close> is taken.

  \<open>ilog10\<close> is the decimal exponent \<open>e\<close> of a positive \<open>x\<close>: \<open>10^e \<le> x < 10^(e+1)\<close>.
\<close>

definition ilog10 :: "rat \<Rightarrow> int" where
  "ilog10 x = (if 1 \<le> x then int (floorlog 10 (nat \<lfloor>x\<rfloor>)) - 1
               else - int (floorlog 10 (nat (\<lceil>1 / x\<rceil> - 1))))"

text \<open>
  The pairs \<open>(n, s)\<close> to try for \<open>k\<close> digits, the closer first: with
  \<open>n = ilog10 x + 1\<close> the two integers around \<open>x / 10^(n-k)\<close>; and for one digit also
  the next power of ten, \<open>s = 1\<close> with \<open>n + 1\<close>, which may round down to \<open>x\<close>.
\<close>

definition digit_candidates :: "rat \<Rightarrow> int \<Rightarrow> nat \<Rightarrow> (int \<times> int) list" where
  "digit_candidates x n k =
     (let y = x / 10 powi (n - int k); f = \<lfloor>y\<rfloor>; r = y - of_int f
      in map (Pair n)
           (if r < 1 / 2 then [f, f + 1] else if 1 / 2 < r then [f + 1, f]
            else if even f then [f, f + 1] else [f + 1, f])
         @ (if k = 1 then [(n + 1, 1)] else []))"

definition digits_valid :: "rat \<Rightarrow> nat \<Rightarrow> int \<times> int \<Rightarrow> bool" where
  "digits_valid x k c =
     (10 ^ (k - 1) \<le> snd c \<and> snd c < 10 ^ k \<and>
      to_double (of_int (snd c) * 10 powi (fst c - int k)) = x)"

text \<open>
  The search for the least \<open>k\<close>, from \<open>k\<close> on; the result is \<open>(n, k, s)\<close>. Seventeen
  digits are enough to tell any two doubles apart.
\<close>

function shortest_digits :: "rat \<Rightarrow> int \<Rightarrow> nat \<Rightarrow> int \<times> nat \<times> int" where
  "shortest_digits x n k =
     (let cs = digit_candidates x n k; vs = filter (digits_valid x k) cs
      in if vs \<noteq> [] then (fst (hd vs), k, snd (hd vs))
         else if 17 \<le> k then (n, k, snd (hd cs))
         else shortest_digits x n (Suc k))"
  by pat_completeness auto

termination
  by (relation "measure (\<lambda>(x, n, k). 17 - k)") auto

declare shortest_digits.simps [simp del]

text \<open>
  The four layouts of Number::toString: the digits followed by zeros, the digits with
  a decimal point inside, \<open>0.\<close> followed by zeros and the digits, and, when \<open>n\<close> is
  above 21 or below -5, the exponential notation \<open>d.ddde+x\<close>.
\<close>

definition format_digits :: "int \<times> nat \<times> int \<Rightarrow> string" where
  "format_digits t =
     (case t of (n, k, s) \<Rightarrow>
        let ds = show_nat (nat s)
        in if int k \<le> n \<and> n \<le> 21 then ds @ replicate (nat (n - int k)) CHR ''0''
           else if 0 < n \<and> n \<le> 21 then take (nat n) ds @ ''.'' @ drop (nat n) ds
           else if - 6 < n \<and> n \<le> 0 then ''0.'' @ replicate (nat (- n)) CHR ''0'' @ ds
           else (if k = 1 then ds else take 1 ds @ ''.'' @ drop 1 ds)
                @ ''e'' @ (if n - 1 < 0 then ''-'' else ''+'') @ show_nat (nat \<bar>n - 1\<bar>))"

definition number_toString :: "rat \<Rightarrow> string" where
  "number_toString x =
     (if x = 0 then ''0''
      else (if x < 0 then ''-'' else [])
           @ format_digits (shortest_digits \<bar>x\<bar> (ilog10 \<bar>x\<bar> + 1) 1))"

text \<open>
  \<open>x.toFixed(1)\<close> for \<open>0 \<le> x\<close>. From \<open>10^21\<close> on the built-in returns what
  \<open>toString\<close> returns, which is exponential notation there. Below, it takes the integer
  \<open>n\<close> with \<open>n / 10 - x\<close> closest to zero, the larger one of two, and writes it with
  one fractional digit.
\<close>

definition toFixed1 :: "rat \<Rightarrow> string" where
  "toFixed1 x = (if 10 ^ 21 \<le> x then number_toString x
                 else one_decimal (nat \<lfloor>10 * x + 1 / 2\<rfloor>))"

text \<open>The largest integer \<open>n\<close> such that \<open>n\<close> and \<open>n + 1\<close> are both doubles.\<close>

definition MAX_SAFE_INTEGER :: nat where
  "MAX_SAFE_INTEGER = 2 ^ 53 - 1"

section \<open>Utilities: formatNumber, timeAgo\<close>

text \<open>
  \<^verbatim>\<open>function formatNumber(n) {
    if (n >= 1_000_000) return (n / 1_000_000).toFixed(1) + 'M';
    if (n >= 1_000) return (n / 1_000).toFixed(1) + 'K';
    return n.toString(); }\<close>
  The argument is any Number, here the exact value of a finite one.
\<close>

definition formatNumber :: "rat \<Rightarrow> string" where
  "formatNumber n =
     (if 1000000 \<le> n then toFixed1 (js_div n 1000000) @ ''M''
      else if 1000 \<le> n then toFixed1 (js_div n 1000) @ ''K''
      else number_toString n)"

text \<open>
  \<^verbatim>\<open>function timeAgo(isoString) {
    if (!isoString) return '';
    const diff = Date.now() - new Date(isoString).getTime();
    const mins = Math.floor(diff / 60000);
    if (mins < 60) return `hace ${mins}m`;
    const hrs = Math.floor(mins / 60);
    if (hrs < 24) return `hace ${hrs}h`;
    return `hace ${Math.floor(hrs / 24)}d`; }\<close>
  The clock \<open>Date.now()\<close> is the parameter \<open>now\<close> (milliseconds), the date parser
  of \<open>new Date(s).getTime()\<close> the parameter \<open>parse\<close>: a time value in milliseconds, or
  \<open>None\<close> for an invalid date, whose time value is \<open>NaN\<close>. Every comparison with
  \<open>NaN\<close> is false, so an invalid date falls through to the last return, which prints
  \<open>NaN\<close>.
\<close>

definition timeAgo :: "(string \<Rightarrow> int option) \<Rightarrow> int \<Rightarrow> jsstr \<Rightarrow> string" where
  "timeAgo parse now isoString =
     (if \<not> truthy isoString then ''''
      else case parse (tpl isoString) of
             None \<Rightarrow> ''hace NaNd''
           | Some t \<Rightarrow>
               let diff = js_sub (of_int now) (of_int t);
                   mins = \<lfloor>js_div diff 60000\<rfloor>
               in if mins < 60 then ''hace '' @ show_int mins @ ''m''
                  else let hrs = \<lfloor>js_div (of_int mins) 60\<rfloor>
                       in if hrs < 24 then ''hace '' @ show_int hrs @ ''h''
                          else ''hace '' @ show_int \<lfloor>js_div (of_int hrs) 24\<rfloor> @ ''d'')"

section \<open>The data of the backend\<close>

text \<open>
  The records the renderers read. Optional string fields are \<open>jsstr\<close>; a missing
  number read as \<open>x || 0\<close> is a \<open>nat option\<close>. The entries of the genre histogram are
  kept in the order \<open>Object.entries\<close> yields them.
\<close>

record profile =
  profile_name :: jsstr
  profile_image :: jsstr
  profile_email :: jsstr
  profile_id :: jsstr
  profile_product :: jsstr
  profile_country :: jsstr
  profile_followers :: "nat option"

record artist =
  artist_name :: jsstr
  artist_image :: jsstr
  artist_spotify_url :: jsstr
  artist_followers :: nat

record track =
  track_name :: jsstr
  track_artist :: jsstr
  track_image :: jsstr
  track_popularity :: "nat option"
  track_spotify_url :: jsstr
  track_played_at :: jsstr
  track_preview_url :: jsstr
  track_explanation :: jsstr

record summary =
  summary_profile :: profile
  top_artists :: "artist list"
  top_tracks :: "track list"
  genre_distribution :: "(string \<times> nat) list"
  recent_tracks :: "track list"

record recs =
  profile_description :: jsstr
  recommendations :: "track list option"

text \<open>
  A JSON body, by the shape the client reads from it; \<open>OtherJson\<close> is a body with
  none of the fields read.
\<close>

datatype payload =
    SummaryJson summary
  | ArtistsJson "artist list"
  | TracksJson "track list"
  | RecommendationsJson recs
  | OtherJson

text \<open>
  What \<open>fetch(url)\<close> settles with: a rejection (transport failure, with its
  message), or a response with its status and its body (\<open>None\<close>: not JSON, so
  \<open>res.json()\<close> rejects).
\<close>

datatype fetch_result = NetworkFailure string | HttpResponse nat "payload option"

record env =
  server :: "string \<Rightarrow> fetch_result"
  clock :: int
  date_parse :: "string \<Rightarrow> int option"
  tracks_reject_first :: bool

section \<open>The page\<close>

text \<open>
  An element: tag, class list, other attributes, children. An \<open>innerHTML\<close> assignment
  is modelled by the element tree its markup denotes, with every interpolated string
  taken as text.
\<close>

datatype html = Text string | Elem string "string list" "(string \<times> string) list" "html list"

record chart =
  chart_labels :: "string list"
  chart_data :: "nat list"
  chart_backgroundColor :: "string list"
  chart_destroyed :: bool

record audio =
  audio_url :: string
  audio_volume :: rat
  audio_paused :: bool

text \<open>
  The module's variables (\<open>currentTimeRange\<close>, \<open>genreChart\<close>), the closure variable
  \<open>currentAudio\<close> of the preview buttons now in the page, the \<open>Chart\<close> and \<open>Audio\<close>
  objects created so far (referred to by their index), what went to \<open>console.error\<close>,
  the URLs fetched, and the parts of the document the script writes, named by element
  id.
\<close>

record state =
  currentTimeRange :: string
  genreChart :: "nat option"
  charts :: "chart list"
  currentAudio :: "nat option"
  audios :: "audio list"
  console :: "(string \<times> string) list"
  requests :: "string list"
  loadingScreen_display :: string
  loadingScreen_innerHTML :: "html list"
  dashboardContent_display :: string
  topbar_greeting :: string
  userAvatar_src :: string
  profileAvatar_src :: string
  profileName :: string
  profileMeta :: string
  profilePlan :: string
  profileCountry :: string
  statFollowers :: string
  statTopArtist :: string
  statTopTrack :: string
  statTopGenre :: string
  artistsGrid :: "html list"
  tracksList :: "html list"
  genresList :: "html list"
  recentList :: "html list"
  recommendationsGrid :: "html list"
  profileDescription :: string

text \<open>
  The state when the script starts: the two module variables as declared, nothing
  created, logged or fetched. The markup of the page is not part of the sources; its
  containers start empty here.
\<close>

definition initial_state :: state where
  "initial_state =
     \<lparr> currentTimeRange = ''medium_term'', genreChart = None, charts = [],
       currentAudio = None, audios = [], console = [], requests = [],
       loadingScreen_display = [], loadingScreen_innerHTML = [],
       dashboardContent_display = [], topbar_greeting = [], userAvatar_src = [],
       profileAvatar_src = [], profileName = [], profileMeta = [], profilePlan = [],
       profileCountry = [], statFollowers = [], statTopArtist = [], statTopTrack = [],
       statTopGenre = [], artistsGrid = [], tracksList = [], genresList = [],
       recentList = [], recommendationsGrid = [], profileDescription = [] \<rparr>"

text \<open>\<open>forEach(x => container.appendChild(...))\<close>: the children are appended one by one.\<close>

definition appendChildren :: "html list \<Rightarrow> html list \<Rightarrow> html list" where
  "appendChildren container elems = foldl (\<lambda>kids e. kids @ [e]) container elems"

text \<open>\<open>console.error(label, err)\<close>.\<close>

definition console_error :: "string \<Rightarrow> string \<Rightarrow> state \<Rightarrow> state" where
  "console_error label msg s = s\<lparr>console := console s @ [(label, msg)]\<rparr>"

section \<open>The API client\<close>

text \<open>\<open>res.ok\<close>: the status is in the range 200 to 299.\<close>

definition response_ok :: "nat \<Rightarrow> bool" where
  "response_ok status = (200 \<le> status \<and> status \<le> 299)"

text \<open>The messages of the engine's own errors, whose wording the script does not fix.\<close>

definition json_error :: string where
  "json_error = ''SyntaxError''"

definition type_error :: string where
  "type_error = ''TypeError''"

text \<open>
  \<^verbatim>\<open>async function apiFetch(url) {
    const res = await fetch(url);
    if (!res.ok) throw new Error(`Error ${res.status} en ${url}`);
    return res.json(); }\<close>
  \<open>apiFetch_settles\<close> is what the promise settles with (\<open>Inl\<close> carries the message
  of the error thrown); \<open>apiFetch\<close> adds the effect, the request sent.
\<close>

definition apiFetch_settles :: "env \<Rightarrow> string \<Rightarrow> string + payload" where
  "apiFetch_settles e url =
     (case server e url of
        NetworkFailure msg \<Rightarrow> Inl msg
      | HttpResponse status body \<Rightarrow>
          if \<not> response_ok status
          then Inl (''Error '' @ show_nat status @ '' en '' @ url)
          else (case body of None \<Rightarrow> Inl json_error | Some p \<Rightarrow> Inr p))"

definition apiFetch :: "env \<Rightarrow> string \<Rightarrow> state \<Rightarrow> (string + payload) \<times> state" where
  "apiFetch e url s = (apiFetch_settles e url, s\<lparr>requests := requests s @ [url]\<rparr>)"

text \<open>
  \<^verbatim>\<open>function setLoading(loading) {
    document.getElementById('loadingScreen').style.display = loading ? 'flex' : 'none';
    document.getElementById('dashboardContent').style.display = loading ? 'none' : 'block'; }\<close>
\<close>

definition setLoading :: "bool \<Rightarrow> state \<Rightarrow> state" where
  "setLoading loading s =
     s\<lparr>loadingScreen_display := (if loading then ''flex'' else ''none''),
       dashboardContent_display := (if loading then ''none'' else ''block'')\<rparr>"

section \<open>Renderers\<close>

text \<open>
  \<open>renderProfile\<close> (lines 51 to 64) writes the greeting, the two avatars and the
  fields of the profile card.
\<close>

definition renderProfile :: "profile \<Rightarrow> state \<Rightarrow> state" where
  "renderProfile p s =
     (let avatar = or_else (profile_image p) ''https://via.placeholder.com/72''
      in s\<lparr>topbar_greeting := ''Hola, '' @ tpl (profile_name p) @ '' '' @ wave_emoji,
            userAvatar_src := avatar,
            profileAvatar_src := avatar,
            profileName := or_else (profile_name p) em_dash,
            profileMeta := or_else (profile_email p) (or_else (profile_id p) em_dash),
            profilePlan := (if profile_product p = Str ''premium''
                            then star_emoji @ '' Premium'' else ''Free''),
            profileCountry := or_else (profile_country p) em_dash\<rparr>)"

text \<open>\<open>renderStats\<close> (lines 217 to 219): \<open>formatNumber(profile.followers || 0)\<close>.\<close>

definition renderStats :: "profile \<Rightarrow> state \<Rightarrow> state" where
  "renderStats p s =
     s\<lparr>statFollowers :=
          formatNumber (of_nat (case profile_followers p of None \<Rightarrow> 0 | Some n \<Rightarrow> n))\<rparr>"

text \<open>The card of the artist at index \<open>i\<close> (lines 76 to 91).\<close>

definition artist_card :: "nat \<Rightarrow> artist \<Rightarrow> html" where
  "artist_card i a =
     Elem ''a'' [''artist-card'']
       [(''href'', or_else (artist_spotify_url a) ''#''), (''target'', ''_blank'')]
       [if truthy (artist_image a)
        then Elem ''img'' [''artist-img'']
               [(''src'', tpl (artist_image a)), (''alt'', tpl (artist_name a)),
                (''loading'', ''lazy'')] []
        else Elem ''div'' [''artist-img-placeholder''] [] [Text note_emoji],
        Elem ''div'' [''artist-info''] []
          [Elem ''div'' [''artist-name''] [] [Text (tpl (artist_name a))],
           Elem ''div'' [''artist-rank''] []
             [Text (''#'' @ show_nat (i + 1) @ '' '' @ middle_dot @ '' ''
                    @ formatNumber (of_nat (artist_followers a)) @ '' seguidores'')]]]"

text \<open>
  \<open>renderTopArtists\<close> (lines 66 to 94): clear the grid, write the first artist's name
  to the stat card if there is one, append one card per artist.
\<close>

definition renderTopArtists :: "artist list \<Rightarrow> state \<Rightarrow> state" where
  "renderTopArtists artists s =
     (let s1 = s\<lparr>artistsGrid := []\<rparr>;
          s2 = (case artists of
                  [] \<Rightarrow> s1
                | a # _ \<Rightarrow> s1\<lparr>statTopArtist := text_of (artist_name a)\<rparr>)
      in s2\<lparr>artistsGrid :=
              appendChildren (artistsGrid s2)
                (map (\<lambda>(i, a). artist_card i a) (enumerate 0 artists))\<rparr>)"

text \<open>The "open in Spotify" icon of the track and recommendation links, and the play icon.\<close>

definition external_link_icon :: "nat \<Rightarrow> html" where
  "external_link_icon px =
     Elem ''svg'' []
       [(''width'', show_nat px), (''height'', show_nat px), (''viewBox'', ''0 0 24 24''),
        (''fill'', ''none''), (''stroke'', ''currentColor''), (''stroke-width'', ''2'')]
       [Elem ''path'' []
          [(''d'', ''M18 13v6a2 2 0 0 1-2 2H5a2 2 0 0 1-2-2V8a2 2 0 0 1 2-2h6'')] [],
        Elem ''polyline'' [] [(''points'', ''15 3 21 3 21 9'')] [],
        Elem ''line'' [] [(''x1'', ''10''), (''y1'', ''14''), (''x2'', ''21''), (''y2'', ''3'')] []]"

definition play_icon :: html where
  "play_icon =
     Elem ''svg'' []
       [(''width'', ''14''), (''height'', ''14''), (''viewBox'', ''0 0 24 24''),
        (''fill'', ''currentColor'')]
       [Elem ''polygon'' [] [(''points'', ''5 3 19 12 5 21 5 3'')] []]"

text \<open>The row of the track at index \<open>i\<close> (lines 106 to 129).\<close>

definition track_item :: "nat \<Rightarrow> track \<Rightarrow> html" where
  "track_item i t =
     (let popPct = (case track_popularity t of None \<Rightarrow> 0 | Some p \<Rightarrow> p)
      in Elem ''div'' [''track-item''] []
           ([Elem ''span'' [''track-num''] [] [Text (show_nat (i + 1))],
             if truthy (track_image t)
             then Elem ''img'' [''track-img'']
                    [(''src'', tpl (track_image t)), (''alt'', tpl (track_name t)),
                     (''loading'', ''lazy'')] []
             else Elem ''div'' [''track-img-placeholder''] [] [Text note_emoji],
             Elem ''div'' [''track-info''] []
               [Elem ''div'' [''track-name''] [] [Text (tpl (track_name t))],
                Elem ''div'' [''track-artist''] [] [Text (tpl (track_artist t))]],
             Elem ''div'' [''track-pop''] []
               [Elem ''div'' [''pop-bar''] []
                  [Elem ''div'' [''pop-fill'']
                     [(''style'', ''width:'' @ show_nat popPct @ ''%'')] []],
                Elem ''span'' [] [] [Text (show_nat popPct)]]]
            @ (if truthy (track_spotify_url t)
               then [Elem ''a'' [''track-link'']
                       [(''href'', tpl (track_spotify_url t)), (''target'', ''_blank''),
                        (''title'', ''Abrir en Spotify'')]
                       [external_link_icon 16]]
               else [])))"

text \<open>\<open>renderTopTracks\<close> (lines 96 to 132), built like \<open>renderTopArtists\<close>.\<close>

definition renderTopTracks :: "track list \<Rightarrow> state \<Rightarrow> state" where
  "renderTopTracks tracks s =
     (let s1 = s\<lparr>tracksList := []\<rparr>;
          s2 = (case tracks of
                  [] \<Rightarrow> s1
                | t # _ \<Rightarrow> s1\<lparr>statTopTrack := text_of (track_name t)\<rparr>)
      in s2\<lparr>tracksList :=
              appendChildren (tracksList s2)
                (map (\<lambda>(i, t). track_item i t) (enumerate 0 tracks))\<rparr>)"

text \<open>The row of the genre entry at index \<open>i\<close> (lines 145 to 151).\<close>

definition genre_item :: "nat \<Rightarrow> string \<times> nat \<Rightarrow> html" where
  "genre_item i e =
     Elem ''div'' [''genre-item''] []
       [Elem ''span'' [''genre-idx''] [] [Text (show_nat (i + 1))],
        Elem ''span'' [''genre-name''] [] [Text (fst e)],
        Elem ''span'' [''genre-count''] [] [Text (show_nat (snd e))]]"

definition colors :: "string list" where
  "colors = [''#1db954'', ''#3b82f6'', ''#ec4899'', ''#f59e0b'', ''#8b5cf6'',
             ''#06b6d4'', ''#ef4444'', ''#84cc16'', ''#f97316'', ''#14b8a6'']"

text \<open>\<open>new Chart(ctx, {...})\<close> (lines 164 to 190): the data-dependent part of the configuration.\<close>

definition new_chart :: "(string \<times> nat) list \<Rightarrow> chart" where
  "new_chart entries =
     \<lparr> chart_labels = map fst (take 10 entries),
       chart_data = map snd (take 10 entries),
       chart_backgroundColor = colors,
       chart_destroyed = False \<rparr>"

text \<open>\<open>genreChart.destroy()\<close> on the chart object at index \<open>c\<close>.\<close>

definition chart_destroy :: "nat \<Rightarrow> state \<Rightarrow> state" where
  "chart_destroy c s =
     (if c < length (charts s)
      then s\<lparr>charts := (charts s)[c := (charts s ! c)\<lparr>chart_destroyed := True\<rparr>]\<rparr>
      else s)"

text \<open>
  \<open>renderGenres\<close> (lines 134 to 191) does nothing at all for an empty histogram
  (\<open>if (!entries.length) return;\<close>). Otherwise it takes three steps, in this order.
  First (lines 139 to 152) the first genre goes to the stat card, the list is cleared
  and gets the first ten entries.
\<close>

definition renderGenres_list :: "(string \<times> nat) list \<Rightarrow> state \<Rightarrow> state" where
  "renderGenres_list entries s =
     (let s1 = s\<lparr>statTopGenre := fst (hd entries)\<rparr>;
          s2 = s1\<lparr>genresList := []\<rparr>
      in s2\<lparr>genresList :=
              appendChildren (genresList s2)
                (map (\<lambda>(i, e). genre_item i e) (enumerate 0 (take 10 entries)))\<rparr>)"

text \<open>Then (line 157) \<open>if (genreChart) genreChart.destroy();\<close>.\<close>

definition renderGenres_destroy :: "state \<Rightarrow> state" where
  "renderGenres_destroy s = (case genreChart s of None \<Rightarrow> s | Some c \<Rightarrow> chart_destroy c s)"

text \<open>Last (lines 164 to 190) \<open>genreChart = new Chart(ctx, {...})\<close>.\<close>

definition renderGenres_construct :: "(string \<times> nat) list \<Rightarrow> state \<Rightarrow> state" where
  "renderGenres_construct entries s =
     s\<lparr>genreChart := Some (length (charts s)), charts := charts s @ [new_chart entries]\<rparr>"

definition renderGenres :: "(string \<times> nat) list \<Rightarrow> state \<Rightarrow> state" where
  "renderGenres entries s =
     (if entries = [] then s
      else renderGenres_construct entries (renderGenres_destroy (renderGenres_list entries s)))"

text \<open>The row of a recently played track (lines 198 to 212); it reads the clock.\<close>

definition recent_item :: "env \<Rightarrow> track \<Rightarrow> html" where
  "recent_item e t =
     Elem ''div'' [''recent-item''] []
       [if truthy (track_image t)
        then Elem ''img'' [''recent-img'']
               [(''src'', tpl (track_image t)), (''alt'', tpl (track_name t)),
                (''loading'', ''lazy'')] []
        else Elem ''div'' [''recent-img'']
               [(''style'', ''background:linear-gradient(135deg,#1db954,#3b82f6);border-radius:6px;display:flex;align-items:center;justify-content:center;font-size:1.2rem'')]
               [Text note_emoji],
        Elem ''div'' [''recent-info''] []
          [Elem ''div'' [''recent-name''] [] [Text (tpl (track_name t))],
           Elem ''div'' [''recent-artist''] [] [Text (tpl (track_artist t))]],
        Elem ''span'' [''recent-time''] []
          [Text (timeAgo (date_parse e) (clock e) (track_played_at t))]]"

text \<open>\<open>renderRecentTracks\<close> (lines 193 to 215).\<close>

definition renderRecentTracks :: "env \<Rightarrow> track list \<Rightarrow> state \<Rightarrow> state" where
  "renderRecentTracks e tracks s =
     (let s1 = s\<lparr>recentList := []\<rparr>
      in s1\<lparr>recentList := appendChildren (recentList s1) (map (recent_item e) tracks)\<rparr>)"

text \<open>The card of a recommendation (lines 236 to 262).\<close>

definition rec_card :: "track \<Rightarrow> html" where
  "rec_card t =
     Elem ''div'' [''rec-card'', ''glass-card''] []
       [if truthy (track_image t)
        then Elem ''img'' [''rec-img'']
               [(''src'', tpl (track_image t)), (''alt'', tpl (track_name t)),
                (''loading'', ''lazy'')] []
        else Elem ''div'' [''rec-img'', ''rec-img-placeholder''] [] [Text note_emoji],
        Elem ''div'' [''rec-info''] []
          [Elem ''div'' [''rec-name''] [] [Text (tpl (track_name t))],
           Elem ''div'' [''rec-artist''] [] [Text (tpl (track_artist t))],
           Elem ''div'' [''rec-explanation''] [] [Text (tpl (track_explanation t))]],
        Elem ''div'' [''rec-actions''] []
          ((if truthy (track_preview_url t)
            then [Elem ''button'' [''rec-preview-btn'']
                    [(''data-url'', tpl (track_preview_url t)), (''title'', ''Previsualizar'')]
                    [play_icon]]
            else [])
           @ (if truthy (track_spotify_url t)
              then [Elem ''a'' [''rec-spotify-btn'']
                      [(''href'', tpl (track_spotify_url t)), (''target'', ''_blank''),
                       (''title'', ''Abrir en Spotify'')]
                      [external_link_icon 14]]
              else []))]"

text \<open>The message shown for an empty list of recommendations (line 231).\<close>

definition empty_recommendations :: html where
  "empty_recommendations =
     Elem ''p'' [] [(''style'', ''color:var(--text-muted);padding:2rem'')]
       [Text (''No se encontraron recomendaciones. Escucha m'' @ [CHR 0xC3, CHR 0xA1]
              @ ''s m'' @ [CHR 0xC3, CHR 0xBA]
              @ ''sica en Spotify y vuelve a intentarlo.'')]"

text \<open>
  \<open>renderRecommendations\<close> (lines 221 to 284): clear the grid, write the profile
  description if there is one, show the message for a missing or empty list and
  return, otherwise append one card per recommendation and attach the click handlers
  to the preview buttons, with a fresh closure variable \<open>currentAudio = null\<close>.
\<close>

definition renderRecommendations :: "recs \<Rightarrow> state \<Rightarrow> state" where
  "renderRecommendations d s =
     (let s1 = s\<lparr>recommendationsGrid := []\<rparr>;
          s2 = (if truthy (profile_description d)
                then s1\<lparr>profileDescription :=
                          note_emoji @ '' Tu perfil: '' @ tpl (profile_description d)\<rparr>
                else s1)
      in case recommendations d of
           None \<Rightarrow> s2\<lparr>recommendationsGrid := [empty_recommendations]\<rparr>
         | Some [] \<Rightarrow> s2\<lparr>recommendationsGrid := [empty_recommendations]\<rparr>
         | Some (t # ts) \<Rightarrow>
             s2\<lparr>recommendationsGrid :=
                   appendChildren (recommendationsGrid s2) (map rec_card (t # ts)),
                 currentAudio := None\<rparr>)"

section \<open>Preview playback\<close>

text \<open>
  \<open>grid.querySelectorAll('.rec-preview-btn')\<close>: the elements bearing the class, in
  document order; \<open>btn.dataset.url\<close> reads the attribute every such button is
  created with.
\<close>

fun select_class :: "string \<Rightarrow> html \<Rightarrow> html list" where
  "select_class c (Text t) = []"
| "select_class c (Elem tag cls attrs kids) =
     (if c \<in> set cls then [Elem tag cls attrs kids] else [])
     @ concat (map (select_class c) kids)"

definition dataset_url :: "html \<Rightarrow> string" where
  "dataset_url b =
     (case b of
        Text t \<Rightarrow> []
      | Elem tag cls attrs kids \<Rightarrow>
          (case map_of attrs ''data-url'' of None \<Rightarrow> [] | Some u \<Rightarrow> u))"

definition preview_urls :: "html list \<Rightarrow> string list" where
  "preview_urls grid = map dataset_url (concat (map (select_class ''rec-preview-btn'') grid))"

text \<open>
  The click handler of a preview button (lines 269 to 282), in its two phases. First
  phase: if \<open>currentAudio\<close> is set and not paused, pause it; if it plays this button's
  URL, clear \<open>currentAudio\<close> and return (the flag of the result). Second phase
  (\<open>start_preview\<close>): create the \<open>Audio\<close> for the URL at volume 0.5, store it in
  \<open>currentAudio\<close>, play it. \<open>currentAudio\<close> holds the index of an audio object
  created earlier, so the bound check of \<open>stop_current\<close> never fails. The
  \<open>playing\<close> CSS class of the buttons is presentation only and is not modelled.
\<close>

definition audio_pause :: "nat \<Rightarrow> state \<Rightarrow> state" where
  "audio_pause a s =
     (if a < length (audios s)
      then s\<lparr>audios := (audios s)[a := (audios s ! a)\<lparr>audio_paused := True\<rparr>]\<rparr>
      else s)"

definition stop_current :: "string \<Rightarrow> state \<Rightarrow> state \<times> bool" where
  "stop_current url s =
     (case currentAudio s of
        None \<Rightarrow> (s, False)
      | Some a \<Rightarrow>
          if a < length (audios s) \<and> \<not> audio_paused (audios s ! a)
          then let s1 = audio_pause a s
               in if audio_url (audios s ! a) = url
                  then (s1\<lparr>currentAudio := None\<rparr>, True)
                  else (s1, False)
          else (s, False))"

definition start_preview :: "string \<Rightarrow> state \<Rightarrow> state" where
  "start_preview url s =
     s\<lparr>currentAudio := Some (length (audios s)),
       audios := audios s @ [\<lparr> audio_url = url, audio_volume = 1 / 2, audio_paused = False \<rparr>]\<rparr>"

text \<open>A click on the preview button number \<open>b\<close> of the grid (no such button: no event).\<close>

definition preview_click :: "nat \<Rightarrow> state \<Rightarrow> state" where
  "preview_click b s =
     (let urls = preview_urls (recommendationsGrid s)
      in if length urls \<le> b then s
         else let url = urls ! b; (s1, returned) = stop_current url s
              in if returned then s1 else start_preview url s1)"

text \<open>
  The playback of the audio object at index \<open>a\<close> reaches its end: the browser sets its
  \<open>paused\<close> attribute.
\<close>

definition audio_ended :: "nat \<Rightarrow> state \<Rightarrow> state" where
  "audio_ended a s = audio_pause a s"

datatype event = Click nat | Ended nat

fun handle_event :: "state \<Rightarrow> event \<Rightarrow> state" where
  "handle_event s (Click b) = preview_click b s"
| "handle_event s (Ended a) = audio_ended a s"

definition run_events :: "event list \<Rightarrow> state \<Rightarrow> state" where
  "run_events evs s = foldl handle_event s evs"

text \<open>The audio objects created from index \<open>k\<close> on that are playing.\<close>

definition playing_from :: "nat \<Rightarrow> state \<Rightarrow> audio list" where
  "playing_from k s = filter (\<lambda>a. \<not> audio_paused a) (drop k (audios s))"

text \<open>The chart objects not destroyed.\<close>

definition alive_charts :: "state \<Rightarrow> chart list" where
  "alive_charts s = filter (\<lambda>c. \<not> chart_destroyed c) (charts s)"

section \<open>Loading\<close>

text \<open>The spinner and the error line of the recommendations region (lines 378 and 383).\<close>

definition rec_loading :: html where
  "rec_loading =
     Elem ''div'' [''rec-loading''] []
       [Elem ''div'' [''loading-spinner''] [(''style'', ''width:32px;height:32px'')] [],
        Elem ''p'' [] [] [Text ''Generando recomendaciones...'']]"

definition rec_error :: "string \<Rightarrow> html" where
  "rec_error msg =
     Elem ''p'' [] [(''style'', ''color:var(--text-muted);padding:2rem'')]
       [Text (cross_emoji @ '' Error: '' @ msg)]"

text \<open>What \<open>data.profile_description\<close> and \<open>data.recommendations\<close> read from a body.\<close>

definition recs_of :: "payload \<Rightarrow> recs" where
  "recs_of p =
     (case p of
        RecommendationsJson d \<Rightarrow> d
      | _ \<Rightarrow> \<lparr> profile_description = Undefined, recommendations = None \<rparr>)"

text \<open>
  \<^verbatim>\<open>async function loadRecommendations() {
    const grid = document.getElementById('recommendationsGrid');
    grid.innerHTML = '<div class="rec-loading">...</div>';
    try { const data = await apiFetch('/api/recommendations'); renderRecommendations(data); }
    catch (err) { grid.innerHTML = `<p style="...">... Error: ${err.message}</p>`; } }\<close>
\<close>

definition loadRecommendations :: "env \<Rightarrow> state \<Rightarrow> state" where
  "loadRecommendations e s =
     (let s1 = s\<lparr>recommendationsGrid := [rec_loading]\<rparr>;
          (r, s2) = apiFetch e ''/api/recommendations'' s1
      in case r of
           Inl msg \<Rightarrow> s2\<lparr>recommendationsGrid := [rec_error msg]\<rparr>
         | Inr p \<Rightarrow> renderRecommendations (recs_of p) s2)"

text \<open>The content the catch block of \<open>loadDashboard\<close> gives the loading screen (lines 310 to 313).\<close>

definition load_error_screen :: "string \<Rightarrow> html list" where
  "load_error_screen msg =
     [Elem ''p'' [] [(''style'', ''color:#ef4444'')]
        [Text (cross_emoji @ '' Error al cargar datos: '' @ msg)],
      Elem ''a'' [] [(''href'', ''/''), (''style'', ''color:#1db954;margin-top:1rem'')]
        [Text ''Volver al inicio'']]"

definition load_failed :: "string \<Rightarrow> state \<Rightarrow> state" where
  "load_failed msg s =
     (console_error ''Error cargando el dashboard:'' msg s)
       \<lparr>loadingScreen_innerHTML := load_error_screen msg\<rparr>"

text \<open>
  \<open>loadDashboard\<close> (lines 290 to 315): show the loading screen, fetch the summary; on
  success run the six renderers, hide the loading screen and start
  \<open>loadRecommendations\<close>; on an error log it and put the message and the link into
  the loading screen. A body that is no summary has no \<open>profile\<close>, so
  \<open>renderProfile\<close> throws on its first line and the catch block runs.
\<close>

definition loadDashboard :: "string \<Rightarrow> env \<Rightarrow> state \<Rightarrow> state" where
  "loadDashboard timeRange e s =
     (let s1 = setLoading True s;
          (r, s2) = apiFetch e ''/api/dashboard/summary'' s1
      in case r of
           Inl msg \<Rightarrow> load_failed msg s2
         | Inr (SummaryJson d) \<Rightarrow>
             loadRecommendations e
               (setLoading False
                 (renderRecentTracks e (recent_tracks d)
                   (renderGenres (genre_distribution d)
                     (renderTopTracks (top_tracks d)
                       (renderTopArtists (top_artists d)
                         (renderStats (summary_profile d)
                           (renderProfile (summary_profile d) s2)))))))
         | Inr _ \<Rightarrow> load_failed type_error s2)"

text \<open>
  \<open>Promise.all\<close> of the two fetches: both values, or the error of the first promise
  to reject (the environment says which one that is when both reject).
\<close>

definition promise_all2 ::
  "bool \<Rightarrow> string + payload \<Rightarrow> string + payload \<Rightarrow> string + payload \<times> payload" where
  "promise_all2 second_first ra rt =
     (case ra of
        Inl ea \<Rightarrow> (case rt of Inl et \<Rightarrow> Inl (if second_first then et else ea) | Inr _ \<Rightarrow> Inl ea)
      | Inr a \<Rightarrow> (case rt of Inl et \<Rightarrow> Inl et | Inr t \<Rightarrow> Inr (a, t)))"

text \<open>
  \<open>reloadWithTimeRange\<close> (lines 321 to 333). A body without \<open>artists\<close> (or
  \<open>tracks\<close>) makes the renderer throw on \<open>artists[0]\<close>, after it has cleared its
  container; the catch block logs that error as well.
\<close>

definition reloadWithTimeRange :: "string \<Rightarrow> env \<Rightarrow> state \<Rightarrow> state" where
  "reloadWithTimeRange timeRange e s =
     (let s1 = s\<lparr>currentTimeRange := timeRange\<rparr>;
          (ra, s2) = apiFetch e (''/api/top/artists?time_range='' @ timeRange @ ''&limit=10'') s1;
          (rt, s3) = apiFetch e (''/api/top/tracks?time_range='' @ timeRange @ ''&limit=10'') s2
      in case promise_all2 (tracks_reject_first e) ra rt of
           Inl msg \<Rightarrow> console_error ''Error recargando por tiempo:'' msg s3
         | Inr (pa, pt) \<Rightarrow>
             (case pa of
                ArtistsJson artists \<Rightarrow>
                  let s4 = renderTopArtists artists s3
                  in (case pt of
                        TracksJson tracks \<Rightarrow> renderTopTracks tracks s4
                      | _ \<Rightarrow> console_error ''Error recargando por tiempo:'' type_error
                               (s4\<lparr>tracksList := []\<rparr>))
              | _ \<Rightarrow> console_error ''Error recargando por tiempo:'' type_error
                       (s3\<lparr>artistsGrid := []\<rparr>)))"

section \<open>Sequences of calls and the invariants of the two object stores\<close>

text \<open>Any sequence of \<open>renderGenres\<close> calls, one per histogram of the list.\<close>

definition renderGenres_calls :: "(string \<times> nat) list list \<Rightarrow> state \<Rightarrow> state" where
  "renderGenres_calls inputs s = foldl (\<lambda>st g. renderGenres g st) s inputs"

text \<open>
  The chart store is consistent: \<open>genreChart\<close>, when set, refers to a chart created,
  and a chart is alive exactly when it is the one \<open>genreChart\<close> refers to.
\<close>

definition chart_inv :: "state \<Rightarrow> bool" where
  "chart_inv s =
     ((case genreChart s of None \<Rightarrow> True | Some c \<Rightarrow> c < length (charts s)) \<and>
      (\<forall>i < length (charts s). (\<not> chart_destroyed (charts s ! i)) = (genreChart s = Some i)))"

text \<open>
  Among the audio objects created from index \<open>k\<close> on, only the one \<open>currentAudio\<close>
  refers to can be playing.
\<close>

definition audio_inv :: "nat \<Rightarrow> state \<Rightarrow> bool" where
  "audio_inv k s =
     (\<forall>i < length (audios s). k \<le> i \<and> \<not> audio_paused (audios s ! i) \<longrightarrow> currentAudio s = Some i)"

section \<open>Sample data\<close>

text \<open>
  Concrete inputs for the examples below: an artist, two recommendations with a
  preview each, a backend that answers the two \<open>short_term\<close> requests and the
  recommendations request and fails every other one with status 500, and the state
  after the recommendations were rendered on the initial page and the first preview
  button was clicked.
\<close>

definition sample_artist :: artist where
  "sample_artist =
     \<lparr> artist_name = Str ''Rosalia'', artist_image = Undefined,
       artist_spotify_url = Undefined, artist_followers = 1500 \<rparr>"

definition sample_track :: "string \<Rightarrow> string \<Rightarrow> track" where
  "sample_track name preview =
     \<lparr> track_name = Str name, track_artist = Str ''Rosalia'', track_image = Null,
       track_popularity = Some 80, track_spotify_url = Undefined, track_played_at = Undefined,
       track_preview_url = Str preview, track_explanation = Str ''similar'' \<rparr>"

definition sample_recs :: recs where
  "sample_recs =
     \<lparr> profile_description = Str ''pop'',
       recommendations = Some [sample_track ''A'' ''/previews/a.mp3'',
                               sample_track ''B'' ''/previews/b.mp3''] \<rparr>"

definition sample_env :: env where
  "sample_env =
     \<lparr> server = (\<lambda>url. if url = ''/api/top/artists?time_range=short_term&limit=10''
                          then HttpResponse 200 (Some (ArtistsJson [sample_artist]))
                          else if url = ''/api/top/tracks?time_range=short_term&limit=10''
                          then HttpResponse 200 (Some (TracksJson []))
                          else if url = ''/api/recommendations''
                          then HttpResponse 200 (Some (RecommendationsJson sample_recs))
                          else HttpResponse 500 None),
       clock = 1714557725000,
       date_parse = (\<lambda>s. None),
       tracks_reject_first = False \<rparr>"

definition sample_playing :: state where
  "sample_playing = run_events [Click 0] (renderRecommendations sample_recs initial_state)"

section \<open>Rounding to a double\<close>

lemma round_half_even_of_int: "round_half_even (of_int k) = k"
  by (simp add: round_half_even_def)

lemma round_half_even_err: "\<bar>of_int (round_half_even x) - x\<bar> \<le> 1 / 2"
proof -
  have "of_int \<lfloor>x\<rfloor> \<le> x" "x < of_int \<lfloor>x\<rfloor> + 1" by linarith+
  then show ?thesis
    by (auto simp: round_half_even_def Let_def)
qed

lemma ilog2_bounds:
  assumes "0 < x"
  shows "2 powi (ilog2 x) \<le> x" and "x < 2 powi (ilog2 x + 1)"
proof -
  have "2 powi (ilog2 x) \<le> x \<and> x < 2 powi (ilog2 x + 1)"
  proof (cases "1 \<le> x")
    case True
    define n where "n = nat \<lfloor>x\<rfloor>"
    define k where "k = floorlog 2 n"
    have n: "0 < n" "of_nat n \<le> x" "x < of_nat n + 1"
      using True by (auto simp: n_def) linarith+
    have b: "2 ^ (k - 1) \<le> n" "n < 2 ^ k"
      using floorlog_bounds [of n 2] n(1) by (auto simp: k_def)
    have kpos: "0 < k" using b(2) n(1) by (cases k) auto
    have e: "ilog2 x = int (k - 1)"
      using True kpos by (simp add: ilog2_def k_def n_def)
    have "(2::rat) ^ (k - 1) \<le> of_nat n"
      using b(1) by (metis of_nat_le_iff of_nat_numeral of_nat_power)
    moreover have "of_nat n + 1 \<le> (2::rat) ^ k"
    proof -
      have "n + 1 \<le> 2 ^ k" using b(2) by simp
      then have "(of_nat (n + 1) :: rat) \<le> of_nat (2 ^ k)" by (simp only: of_nat_le_iff)
      then show ?thesis by simp
    qed
    moreover have "ilog2 x + 1 = int k" using kpos e by simp
    then have "2 powi (ilog2 x + 1) = (2::rat) ^ k" by (simp only: power_int_of_nat)
    moreover have "2 powi (ilog2 x) = (2::rat) ^ (k - 1)"
      unfolding e by (rule power_int_of_nat)
    ultimately show ?thesis
      using n by linarith
  next
    case False
    define y where "y = 1 / x"
    define m where "m = nat (\<lceil>y\<rceil> - 1)"
    define k where "k = floorlog 2 m"
    have y1: "1 < y" using False assms by (simp add: y_def)
    have m: "0 < m" "of_nat m < y" "y \<le> of_nat m + 1"
      using y1 by (auto simp: m_def) linarith+
    have b: "2 ^ (k - 1) \<le> m" "m < 2 ^ k"
      using floorlog_bounds [of m 2] m(1) by (auto simp: k_def)
    have kpos: "0 < k" using b(2) m(1) by (cases k) auto
    have e: "ilog2 x = - int k"
      using False by (simp add: ilog2_def k_def m_def y_def)
    have lo: "(2::rat) ^ (k - 1) < y"
    proof -
      have "(2::rat) ^ (k - 1) \<le> of_nat m"
        using b(1) by (metis of_nat_le_iff of_nat_numeral of_nat_power)
      then show ?thesis using m(2) by linarith
    qed
    have hi: "y \<le> (2::rat) ^ k"
    proof -
      have "m + 1 \<le> 2 ^ k" using b(2) by simp
      then have "(of_nat (m + 1) :: rat) \<le> of_nat (2 ^ k)" by (simp only: of_nat_le_iff)
      then have "of_nat m + 1 \<le> (2::rat) ^ k" by simp
      then show ?thesis using m(3) by linarith
    qed
    have x: "x = 1 / y" by (simp add: y_def)
    have "1 / (2::rat) ^ k \<le> x"
      unfolding x using hi y1 by (simp add: frac_le)
    moreover have "x < 1 / (2::rat) ^ (k - 1)"
      unfolding x using lo by (simp add: frac_less2)
    moreover have "ilog2 x + 1 = - int (k - 1)" using kpos e by simp
    then have "2 powi (ilog2 x + 1) = 1 / (2::rat) ^ (k - 1)"
      by (simp only: power_int_minus power_int_of_nat inverse_eq_divide)
    moreover have "2 powi (ilog2 x) = 1 / (2::rat) ^ k"
      unfolding e by (simp only: power_int_minus power_int_of_nat inverse_eq_divide)
    ultimately show ?thesis
      by linarith
  qed
  then show "2 powi (ilog2 x) \<le> x" and "x < 2 powi (ilog2 x + 1)" by simp_all
qed

lemma ilog2_eqI:
  assumes "0 < x" "2 powi e \<le> x" "x < 2 powi (e + 1)"
  shows "ilog2 x = e"
proof -
  have a: "(2::rat) powi e < 2 powi (ilog2 x + 1)"
    using assms(2) ilog2_bounds(2) [OF assms(1)] by linarith
  have b: "(2::rat) powi (ilog2 x) < 2 powi (e + 1)"
    using assms(3) ilog2_bounds(1) [OF assms(1)] by linarith
  have "e < ilog2 x + 1"
  proof (rule ccontr)
    assume "\<not> e < ilog2 x + 1"
    then have "(2::rat) powi (ilog2 x + 1) \<le> 2 powi e"
      by (intro power_int_increasing) auto
    with a show False by linarith
  qed
  moreover have "ilog2 x < e + 1"
  proof (rule ccontr)
    assume "\<not> ilog2 x < e + 1"
    then have "(2::rat) powi (e + 1) \<le> 2 powi (ilog2 x)"
      by (intro power_int_increasing) auto
    with b show False by linarith
  qed
  ultimately show ?thesis by linarith
qed

text \<open>The same for the decimal exponent.\<close>

lemma ilog10_bounds:
  assumes "0 < x"
  shows "10 powi (ilog10 x) \<le> x" and "x < 10 powi (ilog10 x + 1)"
proof -
  have "10 powi (ilog10 x) \<le> x \<and> x < 10 powi (ilog10 x + 1)"
  proof (cases "1 \<le> x")
    case True
    define n where "n = nat \<lfloor>x\<rfloor>"
    define k where "k = floorlog 10 n"
    have n: "0 < n" "of_nat n \<le> x" "x < of_nat n + 1"
      using True by (auto simp: n_def) linarith+
    have b: "10 ^ (k - 1) \<le> n" "n < 10 ^ k"
      using floorlog_bounds [of n 10] n(1) by (auto simp: k_def)
    have kpos: "0 < k" using b(2) n(1) by (cases k) auto
    have e: "ilog10 x = int (k - 1)"
      using True kpos by (simp add: ilog10_def k_def n_def)
    have "(10::rat) ^ (k - 1) \<le> of_nat n"
      using b(1) by (metis of_nat_le_iff of_nat_numeral of_nat_power)
    moreover have "of_nat n + 1 \<le> (10::rat) ^ k"
    proof -
      have "n + 1 \<le> 10 ^ k" using b(2) by simp
      then have "(of_nat (n + 1) :: rat) \<le> of_nat (10 ^ k)" by (simp only: of_nat_le_iff)
      then show ?thesis by simp
    qed
    moreover have "ilog10 x + 1 = int k" using kpos e by simp
    then have "10 powi (ilog10 x + 1) = (10::rat) ^ k" by (simp only: power_int_of_nat)
    moreover have "10 powi (ilog10 x) = (10::rat) ^ (k - 1)"
      unfolding e by (rule power_int_of_nat)
    ultimately show ?thesis
      using n by linarith
  next
    case False
    define y where "y = 1 / x"
    define m where "m = nat (\<lceil>y\<rceil> - 1)"
    define k where "k = floorlog 10 m"
    have y1: "1 < y" using False assms by (simp add: y_def)
    have m: "0 < m" "of_nat m < y" "y \<le> of_nat m + 1"
      using y1 by (auto simp: m_def) linarith+
    have b: "10 ^ (k - 1) \<le> m" "m < 10 ^ k"
      using floorlog_bounds [of m 10] m(1) by (auto simp: k_def)
    have kpos: "0 < k" using b(2) m(1) by (cases k) auto
    have e: "ilog10 x = - int k"
      using False by (simp add: ilog10_def k_def m_def y_def)
    have lo: "(10::rat) ^ (k - 1) < y"
    proof -
      have "(10::rat) ^ (k - 1) \<le> of_nat m"
        using b(1) by (metis of_nat_le_iff of_nat_numeral of_nat_power)
      then show ?thesis using m(2) by linarith
    qed
    have hi: "y \<le> (10::rat) ^ k"
    proof -
      have "m + 1 \<le> 10 ^ k" using b(2) by simp
      then have "(of_nat (m + 1) :: rat) \<le> of_nat (10 ^ k)" by (simp only: of_nat_le_iff)
      then have "of_nat m + 1 \<le> (10::rat) ^ k" by simp
      then show ?thesis using m(3) by linarith
    qed
    have x: "x = 1 / y" by (simp add: y_def)
    have "1 / (10::rat) ^ k \<le> x"
      unfolding x using hi y1 by (simp add: frac_le)
    moreover have "x < 1 / (10::rat) ^ (k - 1)"
      unfolding x using lo by (simp add: frac_less2)
    moreover have "ilog10 x + 1 = - int (k - 1)" using kpos e by simp
    then have "10 powi (ilog10 x + 1) = 1 / (10::rat) ^ (k - 1)"
      by (simp only: power_int_minus power_int_of_nat inverse_eq_divide)
    moreover have "10 powi (ilog10 x) = 1 / (10::rat) ^ k"
      unfolding e by (simp only: power_int_minus power_int_of_nat inverse_eq_divide)
    ultimately show ?thesis
      by linarith
  qed
  then show "10 powi (ilog10 x) \<le> x" and "x < 10 powi (ilog10 x + 1)" by simp_all
qed

lemma ilog10_eqI:
  assumes "0 < x" "10 powi e \<le> x" "x < 10 powi (e + 1)"
  shows "ilog10 x = e"
proof -
  have a: "(10::rat) powi e < 10 powi (ilog10 x + 1)"
    using assms(2) ilog10_bounds(2) [OF assms(1)] by linarith
  have b: "(10::rat) powi (ilog10 x) < 10 powi (e + 1)"
    using assms(3) ilog10_bounds(1) [OF assms(1)] by linarith
  have "e < ilog10 x + 1"
  proof (rule ccontr)
    assume "\<not> e < ilog10 x + 1"
    then have "(10::rat) powi (ilog10 x + 1) \<le> 10 powi e"
      by (intro power_int_increasing) auto
    with a show False by linarith
  qed
  moreover have "ilog10 x < e + 1"
  proof (rule ccontr)
    assume "\<not> ilog10 x < e + 1"
    then have "(10::rat) powi (e + 1) \<le> 10 powi (ilog10 x)"
      by (intro power_int_increasing) auto
    with b show False by linarith
  qed
  ultimately show ?thesis by linarith
qed

lemma to_double_unfold:
  assumes "x \<noteq> 0"
  shows "to_double x =
    sgn x * (of_int (round_half_even (\<bar>x\<bar> / 2 powi (ilog2 \<bar>x\<bar> - 52))) * 2 powi (ilog2 \<bar>x\<bar> - 52))"
  using assms by (simp add: to_double_def Let_def)

text \<open>The relative error of the rounding is at most \<open>2^-53\<close>.\<close>

lemma to_double_err: "\<bar>to_double x - x\<bar> \<le> \<bar>x\<bar> / 2 ^ 53"
proof (cases "x = 0")
  case True
  then show ?thesis by (simp add: to_double_def)
next
  case False
  define a where "a = \<bar>x\<bar>"
  define u :: rat where "u = 2 powi (ilog2 a - 52)"
  define m where "m = round_half_even (a / u)"
  have apos: "0 < a" using False by (simp add: a_def)
  have upos: "0 < u" by (simp add: u_def)
  have td: "to_double x = sgn x * (of_int m * u)"
    unfolding to_double_unfold [OF False] a_def u_def m_def ..
  have x: "x = sgn x * a" by (simp add: a_def sgn_mult_abs)
  have "to_double x - x = sgn x * (of_int m * u - a)"
    by (subst x, subst td) (simp add: algebra_simps)
  then have "\<bar>to_double x - x\<bar> = \<bar>of_int m * u - a\<bar>"
    using False by (simp add: abs_mult abs_sgn_eq)
  also have "of_int m * u - a = (of_int m - a / u) * u"
    using upos by (simp add: field_simps)
  also have "\<bar>(of_int m - a / u) * u\<bar> = \<bar>of_int m - a / u\<bar> * u"
    using upos by (simp add: abs_mult)
  also have "\<dots> \<le> (1 / 2) * u"
    using round_half_even_err [of "a / u"] upos
    unfolding m_def by (intro mult_right_mono) auto
  also have "(1 / 2) * u = 2 powi (ilog2 a) / 2 ^ 53"
    by (simp add: u_def power_int_diff)
  also have "\<dots> \<le> a / 2 ^ 53"
    using ilog2_bounds(1) [OF apos] by (simp add: divide_right_mono)
  finally show ?thesis by (simp add: a_def)
qed

lemma to_double_nonneg:
  assumes "0 \<le> x"
  shows "0 \<le> to_double x"
proof -
  have "\<bar>x\<bar> / 2 ^ 53 \<le> \<bar>x\<bar>"
    by (simp add: divide_le_eq)
  then show ?thesis using to_double_err [of x] assms by linarith
qed

text \<open>Every integer below \<open>2^53\<close> in absolute value is a double.\<close>

lemma to_double_of_int:
  assumes "\<bar>a\<bar> < 2 ^ 53"
  shows "to_double (of_int a) = of_int a"
proof (cases "a = 0")
  case True
  then show ?thesis by (simp add: to_double_def)
next
  case False
  define x :: rat where "x = of_int a"
  define k where "k = \<bar>a\<bar>"
  define e where "e = ilog2 \<bar>x\<bar>"
  have kpos: "0 < k" using False by (simp add: k_def)
  have ax: "\<bar>x\<bar> = of_int k" by (simp add: x_def k_def)
  have xn: "x \<noteq> 0" using False by (simp add: x_def)
  have b: "(2::rat) powi e \<le> of_int k"
    using ilog2_bounds(1) [of "\<bar>x\<bar>"] xn unfolding e_def ax [symmetric] by simp
  have "(of_int k :: rat) < of_int (2 ^ 53)"
    using assms unfolding k_def by (simp only: of_int_less_iff)
  then have k53: "(of_int k :: rat) < 2 ^ 53" by simp
  have le: "e \<le> 52"
  proof (rule ccontr)
    assume "\<not> e \<le> 52"
    then have "(2::rat) powi 53 \<le> 2 powi e"
      by (intro power_int_increasing) auto
    then show False using b k53 by simp
  qed
  define s where "s = nat (52 - e)"
  have u: "(2::rat) powi (e - 52) = 1 / 2 ^ s"
  proof -
    have "e - 52 = - int s" using le by (simp add: s_def)
    then show ?thesis by (simp only: power_int_minus power_int_of_nat inverse_eq_divide)
  qed
  have "\<bar>x\<bar> / (2::rat) powi (e - 52) = of_int (k * 2 ^ s)"
    unfolding u ax by simp
  then have r: "round_half_even (\<bar>x\<bar> / 2 powi (e - 52)) = k * 2 ^ s"
    by (simp only: round_half_even_of_int)
  have "to_double x = sgn x * (of_int (k * 2 ^ s) * (1 / 2 ^ s))"
    unfolding to_double_unfold [OF xn] e_def [symmetric] r unfolding u ..
  also have "(of_int (k * 2 ^ s) * (1 / 2 ^ s) :: rat) = \<bar>x\<bar>" unfolding ax by simp
  also have "sgn x * \<bar>x\<bar> = x" by (rule sgn_mult_abs)
  finally show ?thesis by (simp add: x_def)
qed

text \<open>
  \<open>Math.floor(a / b)\<close> on integers below \<open>2^53\<close> is the integer quotient: the
  rounding of the division never reaches the next integer.
\<close>

lemma floor_js_div:
  assumes "\<bar>a\<bar> < 2 ^ 53" "0 < b"
  shows "\<lfloor>js_div (of_int a) (of_int b)\<rfloor> = a div b"
proof (cases "a mod b = 0")
  case True
  then have "b dvd a" by (simp add: dvd_eq_mod_eq_0)
  then have ab: "a = (a div b) * b" by simp
  have "(of_int a :: rat) / of_int b = of_int (a div b)"
    using assms(2) by (subst ab) simp
  moreover have "\<bar>a div b\<bar> < 2 ^ 53"
  proof -
    have "\<bar>a\<bar> = \<bar>a div b\<bar> * b"
      using ab assms(2) by (metis abs_mult abs_of_pos)
    moreover have "\<bar>a div b\<bar> * 1 \<le> \<bar>a div b\<bar> * b"
      using assms(2) by (intro mult_left_mono) auto
    ultimately show ?thesis using assms(1) by linarith
  qed
  ultimately show ?thesis
    by (simp add: js_div_def to_double_of_int)
next
  case False
  define q where "q = a div b"
  define r where "r = a mod b"
  define x :: rat where "x = of_int a / of_int b"
  have "0 \<le> r" "r < b" using assms(2) by (simp_all add: r_def)
  then have r: "0 < r" "r < b" using False by (simp_all add: r_def)
  have a: "a = q * b + r" by (simp add: q_def r_def)
  have bpos: "(0::rat) < of_int b" using assms(2) by simp
  have x: "x = of_int q + of_int r / of_int b"
    using bpos unfolding x_def by (subst a) (simp add: field_simps)
  have r1: "(1::rat) \<le> of_int r"
    using r(1) by (metis int_one_le_iff_zero_less of_int_1 of_int_le_iff)
  have r2: "(of_int r :: rat) \<le> of_int b - 1"
    using r(2) by (metis of_int_1 of_int_diff of_int_le_iff zle_diff1_eq)
  have lo: "of_int q + 1 / of_int b \<le> x"
    unfolding x using r1 bpos by (simp add: divide_right_mono)
  have hi: "x \<le> of_int q + 1 - 1 / of_int b"
  proof -
    have "of_int r / (of_int b :: rat) \<le> (of_int b - 1) / of_int b"
      using r2 bpos by (simp add: divide_right_mono)
    also have "\<dots> = 1 - 1 / of_int b" using bpos by (simp add: field_simps)
    finally show ?thesis unfolding x by simp
  qed
  have "(of_int \<bar>a\<bar> :: rat) < of_int (2 ^ 53)"
    using assms(1) by (simp only: of_int_less_iff)
  then have "\<bar>of_int a :: rat\<bar> < 2 ^ 53" by simp
  then have "\<bar>x\<bar> / 2 ^ 53 < 1 / of_int b"
    using bpos unfolding x_def by (simp add: field_simps)
  then have "\<bar>to_double x - x\<bar> < 1 / of_int b"
    using to_double_err [of x] by linarith
  then have "of_int q < to_double x" "to_double x < of_int q + 1"
    using lo hi by linarith+
  then have "\<lfloor>to_double x\<rfloor> = q" by linarith
  then show ?thesis by (simp add: js_div_def x_def q_def)
qed

lemma abs_div_le_int:
  fixes a b :: int
  assumes "0 < b"
  shows "\<bar>a div b\<bar> \<le> \<bar>a\<bar>"
proof (cases "0 \<le> a")
  case True
  then have "0 \<le> a div b" using assms by (simp add: pos_imp_zdiv_nonneg_iff)
  moreover have "a div b \<le> a div 1" using True assms by (intro zdiv_mono2) auto
  ultimately show ?thesis using True by simp
next
  case False
  then have neg: "a < 0" by simp
  have "a div 1 \<le> a div b" using neg assms by (intro zdiv_mono2_neg) auto
  moreover have "a div b < 0" using neg assms by (simp add: div_neg_pos_less0)
  ultimately show ?thesis using neg by simp
qed

text \<open>
  \<open>toFixed(1)\<close> after a division by \<open>10 * c\<close>, \<open>c\<close> even: below \<open>2^53\<close> the digits
  shown are the exact quotient \<open>n / c\<close> rounded to a nearest integer.
\<close>

lemma toFixed1_nearest:
  fixes n h :: nat
  assumes "n < 2 ^ 53" "0 < h"
  defines "k \<equiv> nat \<lfloor>10 * js_div (of_nat n) (of_nat (10 * (2 * h))) + 1 / 2\<rfloor>"
  shows "\<bar>of_nat k - (of_nat n :: rat) / of_nat (2 * h)\<bar> \<le> 1 / 2"
proof -
  define c :: rat where "c = of_nat (2 * h)"
  define y :: rat where "y = of_nat n / c"
  define x :: rat where "x = js_div (of_nat n) (of_nat (10 * (2 * h)))"
  define f where "f = \<lfloor>10 * x + 1 / 2\<rfloor>"
  have cpos: "0 < c" using assms(2) by (simp add: c_def)
  have ypos: "0 \<le> y" using cpos by (simp add: y_def)
  have xd: "x = to_double (y / 10)"
    by (simp add: x_def js_div_def y_def c_def)
  have "(of_nat n :: rat) < of_nat (2 ^ 53)"
    using assms(1) by (simp only: of_nat_less_iff)
  then have n53: "(of_nat n :: rat) < 2 ^ 53" by simp
  have "\<bar>x - y / 10\<bar> \<le> \<bar>y / 10\<bar> / 2 ^ 53"
    unfolding xd by (rule to_double_err)
  then have "\<bar>x - y / 10\<bar> \<le> y / 10 / 2 ^ 53"
    using ypos by simp
  then have "\<bar>10 * x - y\<bar> \<le> y / 2 ^ 53"
    by linarith
  moreover have "y / 2 ^ 53 < 1 / c"
    using n53 cpos by (simp add: y_def field_simps)
  ultimately have e: "\<bar>10 * x - y\<bar> < 1 / c" by linarith
  have x0: "0 \<le> x" unfolding xd using ypos by (intro to_double_nonneg) simp
  then have f0: "0 \<le> f" unfolding f_def by simp
  have kf: "(of_nat k :: rat) = of_int f"
    using f0 by (simp add: k_def f_def x_def)
  have fl: "of_int f \<le> 10 * x + 1 / 2" "10 * x + 1 / 2 < of_int f + 1"
    unfolding f_def by linarith+
  have d: "\<bar>of_int f - y\<bar> < 1 / 2 + 1 / c"
    using fl e by linarith
  have fc: "\<bar>of_int f - y\<bar> * c = \<bar>of_int f * c - of_nat n\<bar>"
  proof -
    have yc: "y * c = of_nat n" using cpos by (simp add: y_def)
    have "\<bar>of_int f - y\<bar> * c = \<bar>(of_int f - y) * c\<bar>"
      using cpos by (simp add: abs_mult)
    also have "(of_int f - y) * c = of_int f * c - of_nat n"
      by (simp add: left_diff_distrib yc)
    finally show ?thesis .
  qed
  have "\<bar>of_int f - y\<bar> * c < (1 / 2 + 1 / c) * c"
    using d cpos by (simp only: mult_strict_right_mono)
  moreover have "(1 / 2 + 1 / c) * c = of_nat h + 1"
    using cpos assms(2) by (simp add: c_def field_simps)
  ultimately have "\<bar>of_int f * c - of_nat n\<bar> < (of_nat h + 1 :: rat)"
    unfolding fc by simp
  then have "(of_int \<bar>f * int (2 * h) - int n\<bar> :: rat) < of_int (int h + 1)"
    by (simp add: c_def)
  then have "\<bar>f * int (2 * h) - int n\<bar> < int h + 1"
    by (simp only: of_int_less_iff)
  then have "\<bar>f * int (2 * h) - int n\<bar> \<le> int h" by linarith
  then have "(of_int \<bar>f * int (2 * h) - int n\<bar> :: rat) \<le> of_int (int h)"
    by (simp only: of_int_le_iff)
  then have "\<bar>of_int f * c - of_nat n\<bar> \<le> (of_nat h :: rat)"
    by (simp add: c_def)
  then have "\<bar>of_int f - y\<bar> * c \<le> (1 / 2) * c"
    unfolding fc by (simp add: c_def)
  then have "\<bar>of_int f - y\<bar> \<le> 1 / 2"
    using cpos by (simp only: mult_le_cancel_right)
  then show ?thesis by (simp add: kf y_def c_def)
qed

lemma floor_rat_numeral_div:
  "\<lfloor>numeral a / numeral b :: rat\<rfloor> = numeral a div numeral b"
  by (metis floor_divide_of_int_eq of_int_numeral)

lemma to_double_3_2: "to_double (3 / 2) = 3 / 2"
proof -
  have "ilog2 (3 / 2) = 0" by (rule ilog2_eqI) simp_all
  then show ?thesis
    by (simp add: to_double_def Let_def round_half_even_def floor_rat_numeral_div)
qed

lemma to_double_23_10: "to_double (23 / 10) = 5179139571476070 / 2 ^ 51"
proof -
  have "ilog2 (23 / 10) = 1" by (rule ilog2_eqI) simp_all
  then show ?thesis
    by (simp add: to_double_def Let_def round_half_even_def floor_rat_numeral_div)
qed

text \<open>The rounding of a number whose binary exponent is known.\<close>

lemma to_double_eval:
  assumes "0 < x" "2 powi e \<le> x" "x < 2 powi (e + 1)"
  shows "to_double x = of_int (round_half_even (x / 2 powi (e - 52))) * 2 powi (e - 52)"
proof -
  have "ilog2 x = e" using assms by (rule ilog2_eqI)
  then show ?thesis using assms(1) by (simp add: to_double_def Let_def)
qed

lemma js_div_2_90: "js_div (2 ^ 90) 1000000 = 1237940039285380218880"
  unfolding js_div_def
  by (subst to_double_eval [where e = 70])
     (simp_all add: round_half_even_def floor_rat_numeral_div Let_def)


section \<open>formatNumber and timeAgo\<close>

text \<open>\<open>show_nat\<close> prints the decimal digits of its argument.\<close>

lemma digit_val_digit_char:
  assumes "d < 10"
  shows "digit_val (digit_char d) = d"
proof -
  from assms have "d = 0 \<or> d = 1 \<or> d = 2 \<or> d = 3 \<or> d = 4
    \<or> d = 5 \<or> d = 6 \<or> d = 7 \<or> d = 8 \<or> d = 9"
    by arith
  then show ?thesis
    by (elim disjE) (simp_all add: digit_val_def digit_char_def)
qed

lemma read_nat_snoc: "read_nat (s @ [c]) = 10 * read_nat s + digit_val c"
  by (simp add: read_nat_def)

lemma read_show_nat: "read_nat (show_nat n) = n"
proof (induction n rule: show_nat.induct)
  case (1 n)
  show ?case
  proof (cases "n < 10")
    case True
    then show ?thesis
      by (subst show_nat.simps) (simp add: read_nat_def digit_val_digit_char)
  next
    case False
    then have "read_nat (show_nat n) =
        10 * read_nat (show_nat (n div 10)) + digit_val (digit_char (n mod 10))"
      by (subst show_nat.simps) (simp add: read_nat_snoc)
    also have "\<dots> = 10 * (n div 10) + n mod 10"
      using 1 False by (simp add: digit_val_digit_char)
    finally show ?thesis by simp
  qed
qed

text \<open>
  The digits \<open>Number::toString\<close> finds for a natural number below \<open>10^15\<close> are its
  decimal digits without the trailing zeros, which the layout puts back.
\<close>

lemma show_nat_times_power10:
  "0 < a \<Longrightarrow> show_nat (a * 10 ^ z) = show_nat a @ replicate z CHR ''0''"
proof (induction z)
  case 0
  then show ?case by simp
next
  case (Suc z)
  have "show_nat (a * 10 ^ Suc z) = show_nat (a * 10 ^ z) @ [digit_char 0]"
    using Suc.prems by (subst show_nat.simps) simp
  also have "\<dots> = show_nat a @ replicate z CHR ''0'' @ [CHR ''0'']"
    using Suc by (simp add: digit_char_def)
  finally show ?case by (simp add: replicate_append_same)
qed

lemma digits_valid_int:
  assumes "0 \<le> s" "int k \<le> n" "s * 10 ^ nat (n - int k) < 2 ^ 53"
  shows "digits_valid (of_nat m) k (n, s) =
    (10 ^ (k - 1) \<le> s \<and> s < 10 ^ k \<and> s * 10 ^ nat (n - int k) = int m)"
proof -
  have p: "(10::rat) powi (n - int k) = 10 ^ nat (n - int k)"
    using assms(2) by (simp add: power_int_def)
  have e: "of_int s * 10 powi (n - int k) = (of_int (s * 10 ^ nat (n - int k)) :: rat)"
    unfolding p by simp
  have d: "to_double (of_int s * 10 powi (n - int k)) = of_int (s * 10 ^ nat (n - int k))"
    unfolding e using assms(1,3) by (intro to_double_of_int) simp
  have q: "((of_int (s * 10 ^ nat (n - int k)) :: rat) = of_nat m) = (s * 10 ^ nat (n - int k) = int m)"
    by (metis of_int_eq_iff of_int_of_nat_eq)
  show ?thesis
    by (simp only: digits_valid_def fst_conv snd_conv d q)
qed

lemma filter_digit_candidates:
  assumes "\<not> P (n, \<lfloor>x / 10 powi (n - int k)\<rfloor> + 1)" "k = 1 \<Longrightarrow> \<not> P (n + 1, 1)"
  shows "filter P (digit_candidates x n k) =
    (if P (n, \<lfloor>x / 10 powi (n - int k)\<rfloor>) then [(n, \<lfloor>x / 10 powi (n - int k)\<rfloor>)] else [])"
  using assms by (simp add: digit_candidates_def Let_def)

lemma shortest_digits_nat:
  fixes m d k :: nat
  assumes m: "10 ^ (d - 1) \<le> m" "m < 10 ^ d" and d: "d \<le> 15" and k: "1 \<le> k" "k \<le> d"
  shows "format_digits (shortest_digits (of_nat m) (int d) k) = show_nat m"
  using k
proof (induction "d - k" arbitrary: k rule: less_induct)
  case less
  define j where "j = d - k"
  define p :: nat where "p = 10 ^ j"
  define f where "f = m div p"
  define P where "P = digits_valid (of_nat m) k"
  have ppos: "0 < p" by (simp add: p_def)
  have nj: "nat (int d - int k) = j" "int d - int k = int j"
    using less.prems by (simp_all add: j_def)
  have pw: "(10::rat) powi (int d - int k) = of_nat p"
    unfolding nj(2) p_def by (simp add: power_int_of_nat)
  have fl: "\<lfloor>(of_nat m :: rat) / 10 powi (int d - int k)\<rfloor> = int f"
    unfolding pw f_def by (simp add: floor_divide_of_nat_eq)
  have "(10::nat) ^ d \<le> 10 ^ 15" using d by (intro power_increasing) simp_all
  then have m15: "m < 10 ^ 15" and d15: "(10::nat) ^ d \<le> 10 ^ 15" using m(2) by simp_all
  have "j \<le> 14" using less.prems d by (simp add: j_def)
  then have "(10::nat) ^ j \<le> 10 ^ 14" by (intro power_increasing) simp_all
  then have p14: "p \<le> 10 ^ 14" by (simp add: p_def)
  have mp: "f * p + m mod p = m" unfolding f_def by (rule div_mult_mod_eq)
  have ml: "m mod p < p" using ppos by simp
  have fp1: "f * p \<le> m" using mp by linarith
  have "(f + 1) * p = f * p + p" by (simp add: add_mult_distrib)
  then have fp2: "m < (f + 1) * p" using mp ml by linarith
  note fp = fp1 fp2
  have ip: "(10::int) ^ j = int p" by (simp add: p_def)
  have no_up: "\<not> P (int d, int f + 1)"
  proof -
    have "(f + 1) * p \<le> m + p" using fp(1) by simp
    then have "(f + 1) * p < 2 ^ 53" using m15 p14 by simp
    then have "int ((f + 1) * p) < 2 ^ 53" by (metis of_nat_less_iff of_nat_numeral of_nat_power)
    then have b: "(int f + 1) * 10 ^ nat (int d - int k) < 2 ^ 53"
      unfolding nj(1) ip by (simp add: algebra_simps)
    have "(f + 1) * p \<noteq> m" using fp(2) by simp
    then have "int ((f + 1) * p) \<noteq> int m" by (simp only: of_nat_eq_iff not_False_eq_True)
    then have "(int f + 1) * 10 ^ nat (int d - int k) \<noteq> int m"
      unfolding nj(1) ip by (simp add: algebra_simps)
    then show ?thesis
      unfolding P_def using less.prems by (subst digits_valid_int [OF _ _ b]) simp_all
  qed
  have no_next: "\<not> P (int d + 1, 1)" if "k = 1"
  proof -
    have e: "nat (int d + 1 - int k) = d" using that by simp
    have "(10::nat) ^ d < 2 ^ 53" using d15 by simp
    then have "int (10 ^ d) < 2 ^ 53" by (metis of_nat_less_iff of_nat_numeral of_nat_power)
    then have b: "(1::int) * 10 ^ nat (int d + 1 - int k) < 2 ^ 53"
      unfolding e by simp
    have "10 ^ d \<noteq> m" using m(2) by simp
    then have "int (10 ^ d) \<noteq> int m" by (simp only: of_nat_eq_iff not_False_eq_True)
    then have "(1::int) * 10 ^ nat (int d + 1 - int k) \<noteq> int m"
      unfolding e by simp
    then show ?thesis
      unfolding P_def using less.prems by (subst digits_valid_int [OF _ _ b]) simp_all
  qed
  have range: "10 ^ (k - 1) \<le> f" "f < 10 ^ k"
  proof -
    have "(10::nat) ^ (k - 1) * p = 10 ^ (d - 1)"
      using less.prems by (simp add: p_def j_def flip: power_add)
    then have "10 ^ (k - 1) * p \<le> m" using m(1) by simp
    then show "10 ^ (k - 1) \<le> f"
      unfolding f_def using ppos by (metis div_le_mono nonzero_mult_div_cancel_right less_numeral_extra(3))
    have "(10::nat) ^ k * p = 10 ^ d"
      using less.prems by (simp add: p_def j_def flip: power_add)
    then have "m < 10 ^ k * p" using m(2) by simp
    then show "f < 10 ^ k"
      unfolding f_def using ppos by (simp add: less_mult_imp_div_less)
  qed
  have here: "P (int d, int f) = (p dvd m)"
  proof -
    have "f * p < 2 ^ 53" using fp(1) m15 by simp
    then have "int (f * p) < 2 ^ 53" by (metis of_nat_less_iff of_nat_numeral of_nat_power)
    then have b: "int f * 10 ^ nat (int d - int k) < 2 ^ 53"
      unfolding nj(1) ip by (simp add: algebra_simps)
    have r1: "(10::int) ^ (k - 1) \<le> int f"
      using range(1) by (metis of_nat_le_iff of_nat_numeral of_nat_power)
    have r2: "int f < 10 ^ k"
      using range(2) by (metis of_nat_less_iff of_nat_numeral of_nat_power)
    have "(int f * 10 ^ nat (int d - int k) = int m) = (f * p = m)"
      unfolding nj(1) ip by (metis of_nat_eq_iff of_nat_mult)
    also have "\<dots> = (p dvd m)"
      unfolding f_def by (metis dvd_div_mult_self dvd_triv_right)
    finally show ?thesis
      unfolding P_def using less.prems r1 r2 by (subst digits_valid_int [OF _ _ b]) simp_all
  qed
  have flt: "filter P (digit_candidates (of_nat m) (int d) k) =
      (if p dvd m then [(int d, int f)] else [])"
    using no_up no_next here
    by (subst filter_digit_candidates) (simp_all add: fl)
  show ?case
  proof (cases "p dvd m")
    case True
    have "shortest_digits (of_nat m) (int d) k = (int d, k, int f)"
      using flt True by (subst shortest_digits.simps) (simp add: Let_def P_def)
    moreover have "show_nat f @ replicate j CHR ''0'' = show_nat m"
    proof -
      have "0 < f" using range(1) by (metis less_le_trans zero_less_numeral zero_less_power)
      then have "show_nat (f * 10 ^ j) = show_nat f @ replicate j CHR ''0''"
        by (rule show_nat_times_power10)
      moreover have "f * 10 ^ j = m"
        using True by (simp add: f_def p_def)
      ultimately show ?thesis by simp
    qed
    ultimately show ?thesis
      using less.prems d by (simp add: format_digits_def nj)
  next
    case False
    then have "k \<noteq> d" by (auto simp: p_def j_def)
    then have k': "Suc k \<le> d" "k < 17" using less.prems d by simp_all
    have "shortest_digits (of_nat m) (int d) k = shortest_digits (of_nat m) (int d) (Suc k)"
      using flt False k'(2) by (subst shortest_digits.simps) (simp add: Let_def P_def)
    moreover have "format_digits (shortest_digits (of_nat m) (int d) (Suc k)) = show_nat m"
      using k' by (intro less.hyps) simp_all
    ultimately show ?thesis by simp
  qed
qed

lemma number_toString_nat:
  assumes "m < 10 ^ 15"
  shows "number_toString (of_nat m) = show_nat m"
proof (cases "m = 0")
  case True
  then show ?thesis
    by (simp add: number_toString_def show_nat.simps digit_char_def)
next
  case False
  define d where "d = floorlog 10 m"
  have b: "10 ^ (d - 1) \<le> m" "m < 10 ^ d"
    using floorlog_bounds [of m 10] False by (simp_all add: d_def)
  have d1: "1 \<le> d" using b(2) False by (cases d) simp_all
  have "(10::nat) ^ (d - 1) < 10 ^ 15" using b(1) assms by linarith
  then have "d - 1 < 15" by (simp only: power_strict_increasing_iff)
  then have d15: "d \<le> 15" by simp
  have x1: "(1::rat) \<le> of_nat m" using False by simp
  have "ilog10 (of_nat m) = int d - 1"
    using x1 by (simp add: ilog10_def d_def)
  then have "number_toString (of_nat m) = format_digits (shortest_digits (of_nat m) (int d) 1)"
    using False by (simp add: number_toString_def)
  also have "\<dots> = show_nat m"
    using b d15 d1 by (intro shortest_digits_nat) simp_all
  finally show ?thesis .
qed

lemma formatNumber_below_1000:
  assumes "m < 1000"
  shows "formatNumber (of_nat m) = show_nat m"
proof -
  have "(of_nat m :: rat) < of_nat 1000" using assms by (simp only: of_nat_less_iff)
  then have "formatNumber (of_nat m) = number_toString (of_nat m)"
    by (simp add: formatNumber_def)
  also have "\<dots> = show_nat m"
    using assms by (intro number_toString_nat) simp
  finally show ?thesis .
qed

lemma toFixed1_fixed:
  assumes "0 \<le> x" "x < 10 ^ 21"
  shows "\<exists>k. toFixed1 x = one_decimal k \<and> \<bar>of_nat k / 10 - x\<bar> \<le> 1 / 20"
proof -
  define f where "f = \<lfloor>10 * x + 1 / 2\<rfloor>"
  have f0: "0 \<le> f" unfolding f_def using assms(1) by simp
  have fb: "of_int f \<le> 10 * x + 1 / 2" "10 * x + 1 / 2 < of_int f + 1"
    unfolding f_def by linarith+
  have kf: "(of_nat (nat f) :: rat) = of_int f" using f0 by simp
  have "\<bar>of_nat (nat f) / 10 - x\<bar> \<le> 1 / 20"
    unfolding kf using fb by linarith
  moreover have "toFixed1 x = one_decimal (nat f)"
    using assms(2) by (simp add: toFixed1_def f_def)
  ultimately show ?thesis by blast
qed

lemma js_div_bound:
  assumes "0 \<le> n" "0 < c" "n \<le> b * c"
  shows "0 \<le> js_div n c" and "js_div n c \<le> b + b / 2 ^ 53"
proof -
  have y: "0 \<le> n / c" "n / c \<le> b"
    using assms by (simp_all add: field_simps)
  show "0 \<le> js_div n c"
    unfolding js_div_def using y(1) by (rule to_double_nonneg)
  have "\<bar>to_double (n / c) - n / c\<bar> \<le> \<bar>n / c\<bar> / 2 ^ 53" by (rule to_double_err)
  then have "to_double (n / c) \<le> n / c + n / c / 2 ^ 53"
    using y(1) by simp
  also have "\<dots> \<le> b + b / 2 ^ 53"
    using y(2) by (simp add: divide_right_mono add_mono)
  finally show "js_div n c \<le> b + b / 2 ^ 53" by (simp add: js_div_def)
qed

lemma formatNumber_K_any:
  assumes "1000 \<le> n" "n < 1000000"
  shows "\<exists>k. formatNumber n = one_decimal k @ ''K'' \<and> \<bar>of_nat k / 10 - js_div n 1000\<bar> \<le> 1 / 20"
proof -
  have "0 \<le> js_div n 1000" "js_div n 1000 \<le> 1000 + 1000 / 2 ^ 53"
    using assms by (intro js_div_bound [of n 1000 1000]; simp)+
  then have "0 \<le> js_div n 1000" "js_div n 1000 < 10 ^ 21" by simp_all
  then obtain k where "toFixed1 (js_div n 1000) = one_decimal k"
    "\<bar>of_nat k / 10 - js_div n 1000\<bar> \<le> 1 / 20"
    using toFixed1_fixed by blast
  moreover have "formatNumber n = toFixed1 (js_div n 1000) @ ''K''"
    using assms by (simp add: formatNumber_def)
  ultimately show ?thesis by (intro exI [of _ k]) simp
qed

lemma formatNumber_M_any:
  assumes "1000000 \<le> n" "js_div n 1000000 < 10 ^ 21"
  shows "\<exists>k. formatNumber n = one_decimal k @ ''M'' \<and> \<bar>of_nat k / 10 - js_div n 1000000\<bar> \<le> 1 / 20"
proof -
  have "0 \<le> js_div n 1000000"
    unfolding js_div_def using assms(1) by (intro to_double_nonneg) simp
  then obtain k where "toFixed1 (js_div n 1000000) = one_decimal k"
    "\<bar>of_nat k / 10 - js_div n 1000000\<bar> \<le> 1 / 20"
    using toFixed1_fixed assms(2) by blast
  moreover have "formatNumber n = toFixed1 (js_div n 1000000) @ ''M''"
    using assms by (simp add: formatNumber_def)
  ultimately show ?thesis by (intro exI [of _ k]) simp
qed

lemma js_div_below_limit:
  assumes "0 \<le> n" "n \<le> 10 ^ 26"
  shows "js_div n 1000000 < 10 ^ 21"
proof -
  have "js_div n 1000000 \<le> 10 ^ 20 + 10 ^ 20 / 2 ^ 53"
    using assms by (intro js_div_bound [of n 1000000 "10 ^ 20"]) simp_all
  then show ?thesis by simp
qed

lemma formatNumber_exponent:
  assumes "1000000 \<le> n" "10 ^ 21 \<le> js_div n 1000000"
  shows "formatNumber n = number_toString (js_div n 1000000) @ ''M''"
  using assms by (simp add: formatNumber_def toFixed1_def)

lemma formatNumber_K:
  assumes "n \<le> MAX_SAFE_INTEGER" "1000 \<le> n" "n \<le> 999999"
  shows "\<exists>k. formatNumber (of_nat n) = one_decimal k @ ''K'' \<and>
    \<bar>of_nat k / 10 - (of_nat n :: rat) / 1000\<bar> \<le> 1 / 20"
proof -
  define k where "k = nat \<lfloor>10 * js_div (of_nat n) 1000 + 1 / 2\<rfloor>"
  have "n < 2 ^ 53" using assms(1) by (simp add: MAX_SAFE_INTEGER_def)
  then have "\<bar>of_nat k - (of_nat n :: rat) / of_nat (2 * 50)\<bar> \<le> 1 / 2"
    unfolding k_def using toFixed1_nearest [of n 50] by simp
  then have "\<bar>of_nat k - (of_nat n :: rat) / 100\<bar> \<le> 1 / 2"
    by simp
  then have "\<bar>of_nat k / 10 - (of_nat n :: rat) / 1000\<bar> \<le> 1 / 20"
    by linarith
  moreover have "formatNumber (of_nat n) = one_decimal k @ ''K''"
  proof -
    have r: "(1000::rat) \<le> of_nat n" "(of_nat n :: rat) < 1000000"
      using assms(2,3) by simp_all
    have "js_div (of_nat n) 1000 \<le> 1000 + 1000 / 2 ^ 53"
      using r by (intro js_div_bound [of "of_nat n" 1000 1000]) simp_all
    then have "js_div (of_nat n) 1000 < 10 ^ 21" by simp
    then show ?thesis
      using r by (simp add: formatNumber_def toFixed1_def k_def)
  qed
  ultimately show ?thesis by blast
qed

lemma formatNumber_M:
  assumes "n \<le> MAX_SAFE_INTEGER" "1000000 \<le> n"
  shows "\<exists>k. formatNumber (of_nat n) = one_decimal k @ ''M'' \<and>
    \<bar>of_nat k / 10 - (of_nat n :: rat) / 1000000\<bar> \<le> 1 / 20"
proof -
  define k where "k = nat \<lfloor>10 * js_div (of_nat n) 1000000 + 1 / 2\<rfloor>"
  have n53: "n < 2 ^ 53" using assms(1) by (simp add: MAX_SAFE_INTEGER_def)
  then have "\<bar>of_nat k - (of_nat n :: rat) / of_nat (2 * 50000)\<bar> \<le> 1 / 2"
    unfolding k_def using toFixed1_nearest [of n 50000] by simp
  then have "\<bar>of_nat k - (of_nat n :: rat) / 100000\<bar> \<le> 1 / 2"
    by simp
  then have "\<bar>of_nat k / 10 - (of_nat n :: rat) / 1000000\<bar> \<le> 1 / 20"
    by linarith
  moreover have "formatNumber (of_nat n) = one_decimal k @ ''M''"
  proof -
    have r: "(1000000::rat) \<le> of_nat n"
      using assms(2) by simp
    have "(of_nat n :: rat) < of_nat (2 ^ 53)" using n53 by (simp only: of_nat_less_iff)
    then have "(of_nat n :: rat) \<le> 10 ^ 26" by simp
    then have "js_div (of_nat n) 1000000 < 10 ^ 21"
      by (intro js_div_below_limit) simp_all
    then show ?thesis
      using r by (simp add: formatNumber_def toFixed1_def k_def)
  qed
  ultimately show ?thesis by blast
qed

lemma formatNumber_999: "formatNumber 999 = ''999''"
  using formatNumber_below_1000 [of 999] by (simp add: show_nat.simps digit_char_def)

lemma formatNumber_1500: "formatNumber 1500 = ''1.5K''"
  by (simp add: formatNumber_def js_div_def to_double_3_2 toFixed1_def one_decimal_def
      show_nat.simps digit_char_def floor_rat_numeral_div)

lemma formatNumber_2300000: "formatNumber 2300000 = ''2.3M''"
  by (simp add: formatNumber_def js_div_def to_double_23_10 toFixed1_def one_decimal_def
      show_nat.simps digit_char_def floor_rat_numeral_div)

text \<open>From \<open>10^21\<close> on \<open>Number::toString\<close> writes an exponent, which no one-decimal form has.\<close>

lemma digit_candidates_fst:
  "c \<in> set (digit_candidates x n k) \<Longrightarrow> fst c = n \<or> fst c = n + 1"
  by (auto simp: digit_candidates_def Let_def split: if_splits)

lemma shortest_digits_fst:
  "fst (shortest_digits x n k) = n \<or> fst (shortest_digits x n k) = n + 1"
proof (induction x n k rule: shortest_digits.induct)
  case (1 x n k)
  define cs where "cs = digit_candidates x n k"
  define vs where "vs = filter (digits_valid x k) cs"
  show ?case
  proof (cases "vs \<noteq> []")
    case True
    then have "hd vs \<in> set cs" unfolding vs_def by (metis filter_is_subset hd_in_set subsetD)
    then have "fst (hd vs) = n \<or> fst (hd vs) = n + 1"
      unfolding cs_def by (rule digit_candidates_fst)
    moreover have "shortest_digits x n k = (fst (hd vs), k, snd (hd vs))"
      using True by (subst shortest_digits.simps) (simp add: Let_def vs_def cs_def)
    ultimately show ?thesis by simp
  next
    case False
    show ?thesis
    proof (cases "17 \<le> k")
      case True
      have "shortest_digits x n k = (n, k, snd (hd cs))"
        using False True by (subst shortest_digits.simps) (simp add: Let_def vs_def cs_def)
      then show ?thesis by simp
    next
      case k: False
      have "shortest_digits x n k = shortest_digits x n (Suc k)"
        using False k by (subst shortest_digits.simps) (simp add: Let_def vs_def cs_def)
      moreover have "fst (shortest_digits x n (Suc k)) = n \<or> fst (shortest_digits x n (Suc k)) = n + 1"
        using False k by (intro 1 [of cs vs]) (simp_all add: cs_def vs_def)
      ultimately show ?thesis by simp
    qed
  qed
qed

lemma ilog10_ge_21:
  assumes "10 ^ 21 \<le> x"
  shows "21 \<le> ilog10 x"
proof (rule ccontr)
  assume "\<not> 21 \<le> ilog10 x"
  then have "ilog10 x + 1 \<le> 21" by simp
  then have "(10::rat) powi (ilog10 x + 1) \<le> 10 powi 21"
    by (intro power_int_increasing) auto
  moreover have "0 < x" using assms by (rule less_le_trans [rotated]) simp
  then have "x < 10 powi (ilog10 x + 1)" by (rule ilog10_bounds)
  ultimately show False using assms by simp
qed

lemma number_toString_exponent:
  assumes "10 ^ 21 \<le> x"
  shows "\<exists>ds e. number_toString x = ds @ ''e+'' @ show_nat e \<and> 21 \<le> e"
proof -
  have x0: "0 < x" using assms by (rule less_le_trans [rotated]) simp
  obtain n k s where t: "shortest_digits \<bar>x\<bar> (ilog10 \<bar>x\<bar> + 1) 1 = (n, k, s)"
    by (metis prod_cases3)
  have "n = ilog10 \<bar>x\<bar> + 1 \<or> n = ilog10 \<bar>x\<bar> + 1 + 1"
    using shortest_digits_fst [of "\<bar>x\<bar>" "ilog10 \<bar>x\<bar> + 1" 1] t by simp
  moreover have "21 \<le> ilog10 \<bar>x\<bar>" using assms x0 by (intro ilog10_ge_21) simp
  ultimately have n: "22 \<le> n" by linarith
  define ds where "ds = (if k = 1 then show_nat (nat s) else take 1 (show_nat (nat s)) @ ''.'' @ drop 1 (show_nat (nat s)))"
  have "number_toString x = format_digits (n, k, s)"
    using x0 t by (simp add: number_toString_def)
  also have "\<dots> = ds @ ''e+'' @ show_nat (nat (n - 1))"
    using n by (simp add: format_digits_def ds_def Let_def)
  finally have "number_toString x = ds @ ''e+'' @ show_nat (nat (n - 1))" .
  moreover have "21 \<le> nat (n - 1)" using n by simp
  ultimately show ?thesis by blast
qed

lemma digit_char_digit: "d < 10 \<Longrightarrow> digit_char d \<in> set ''0123456789''"
  unfolding digit_char_def by (intro nth_mem) simp

lemma show_nat_digits: "set (show_nat n) \<subseteq> set ''0123456789''"
proof (induction n rule: show_nat.induct)
  case (1 n)
  show ?case
  proof (cases "n < 10")
    case True
    then show ?thesis
      using digit_char_digit [of n] by (subst show_nat.simps) simp
  next
    case False
    have "digit_char (n mod 10) \<in> set ''0123456789''"
      by (intro digit_char_digit) simp
    then show ?thesis
      using 1 False by (subst show_nat.simps) simp
  qed
qed

lemma one_decimal_no_exponent: "CHR ''e'' \<notin> set (one_decimal k @ ''M'')"
  using show_nat_digits [of "k div 10"] show_nat_digits [of "k mod 10"]
  by (auto simp: one_decimal_def)

lemma formatNumber_not_one_decimal:
  assumes "1000000 \<le> n" "10 ^ 21 \<le> js_div n 1000000"
  shows "formatNumber n \<noteq> one_decimal k @ ''M''"
proof -
  obtain ds e where "number_toString (js_div n 1000000) = ds @ ''e+'' @ show_nat e"
    using number_toString_exponent [OF assms(2)] by blast
  then have "formatNumber n = ds @ ''e+'' @ show_nat e @ ''M''"
    using formatNumber_exponent [OF assms] by simp
  then have "CHR ''e'' \<in> set (formatNumber n)" by simp
  then show ?thesis using one_decimal_no_exponent [of k] by metis
qed

text \<open>The quotient of \<open>2^90\<close> by \<open>1000000\<close> and its seventeen digits.\<close>

lemma shortest_digits_2_90:
  "shortest_digits 1237940039285380218880 22 1 = (22, 17, 12379400392853802)"
  by (simp add: shortest_digits.simps digit_candidates_def digits_valid_def Let_def
      to_double_eval [where e = 69] to_double_eval [where e = 70] to_double_eval [where e = 73]
      round_half_even_def floor_rat_numeral_div)

lemma number_toString_2_90:
  "number_toString 1237940039285380218880 = ''1.2379400392853802e+21''"
proof -
  have e: "ilog10 1237940039285380218880 = 21" by (rule ilog10_eqI) simp_all
  have s: "shortest_digits 1237940039285380218880 22 (Suc 0) = (22, 17, 12379400392853802)"
    using shortest_digits_2_90 by simp
  show ?thesis
    by (simp add: number_toString_def e s format_digits_def show_nat.simps digit_char_def)
qed

text \<open>
  Claim C5, amended. For every finite Number \<open>n\<close>, \<open>formatNumber n\<close> is
  \<open>n.toString()\<close> when \<open>n < 1000\<close>, which for a natural number is the string of its
  decimal digits (it reads back as \<open>n\<close>). For \<open>1000 \<le> n < 1000000\<close> it is a numeral
  with one fractional digit followed by \<open>K\<close>, and for \<open>n \<ge> 1000000\<close> such a numeral
  followed by \<open>M\<close> as long as the quotient \<open>n / 1000000\<close> the code computes is below
  \<open>10^21\<close>, which holds up to \<open>n = 10^26\<close> at least. The numeral is the computed
  quotient rounded to a nearest tenth, and the computed quotient is the exact one
  rounded to a double; for a natural number up to \<open>MAX_SAFE_INTEGER\<close> the numeral is
  the exact quotient \<open>n / 1000\<close> or \<open>n / 1000000\<close> rounded to a nearest tenth. From a
  computed quotient of \<open>10^21\<close> on the result is not of the one-decimal form: it is
  what \<open>toString\<close> gives for the quotient, in exponential notation, followed by \<open>M\<close>.
  In particular \<open>formatNumber 999\<close> is \<open>999\<close>, \<open>formatNumber 1500\<close> is \<open>1.5K\<close> and
  \<open>formatNumber 2300000\<close> is \<open>2.3M\<close>.
\<close>

theorem formatNumber_spec:
  "(n < 1000 \<longrightarrow> formatNumber n = number_toString n) \<and>
   (m < 1000 \<longrightarrow> formatNumber (of_nat m) = show_nat m \<and> read_nat (formatNumber (of_nat m)) = m) \<and>
   (1000 \<le> n \<and> n < 1000000 \<longrightarrow>
      (\<exists>j. formatNumber n = one_decimal j @ ''K'' \<and>
           \<bar>of_nat j / 10 - js_div n 1000\<bar> \<le> 1 / 20)) \<and>
   (1000000 \<le> n \<and> js_div n 1000000 < 10 ^ 21 \<longrightarrow>
      (\<exists>j. formatNumber n = one_decimal j @ ''M'' \<and>
           \<bar>of_nat j / 10 - js_div n 1000000\<bar> \<le> 1 / 20)) \<and>
   (0 \<le> n \<and> n \<le> 10 ^ 26 \<longrightarrow> js_div n 1000000 < 10 ^ 21) \<and>
   \<bar>js_div n c - n / c\<bar> \<le> \<bar>n / c\<bar> / 2 ^ 53 \<and>
   (1000 \<le> m \<and> m \<le> 999999 \<longrightarrow>
      (\<exists>j. formatNumber (of_nat m) = one_decimal j @ ''K'' \<and>
           \<bar>of_nat j / 10 - (of_nat m :: rat) / 1000\<bar> \<le> 1 / 20)) \<and>
   (1000000 \<le> m \<and> m \<le> MAX_SAFE_INTEGER \<longrightarrow>
      (\<exists>j. formatNumber (of_nat m) = one_decimal j @ ''M'' \<and>
           \<bar>of_nat j / 10 - (of_nat m :: rat) / 1000000\<bar> \<le> 1 / 20)) \<and>
   (1000000 \<le> n \<and> 10 ^ 21 \<le> js_div n 1000000 \<longrightarrow>
      formatNumber n = number_toString (js_div n 1000000) @ ''M'' \<and>
      (\<exists>ds e. formatNumber n = ds @ ''e+'' @ show_nat e @ ''M'' \<and> 21 \<le> e) \<and>
      formatNumber n \<noteq> one_decimal k @ ''M'') \<and>
   formatNumber 999 = ''999'' \<and>
   formatNumber 1500 = ''1.5K'' \<and>
   formatNumber 2300000 = ''2.3M''"
proof (intro conjI impI)
  show "formatNumber n = number_toString n" if "n < 1000"
    using that by (simp add: formatNumber_def)
  show "formatNumber (of_nat m) = show_nat m" if "m < 1000"
    using that by (rule formatNumber_below_1000)
  then show "read_nat (formatNumber (of_nat m)) = m" if "m < 1000"
    using that by (simp add: read_show_nat)
  show "\<exists>j. formatNumber n = one_decimal j @ ''K'' \<and> \<bar>of_nat j / 10 - js_div n 1000\<bar> \<le> 1 / 20"
    if "1000 \<le> n \<and> n < 1000000"
    using that by (intro formatNumber_K_any) simp_all
  show "\<exists>j. formatNumber n = one_decimal j @ ''M'' \<and> \<bar>of_nat j / 10 - js_div n 1000000\<bar> \<le> 1 / 20"
    if "1000000 \<le> n \<and> js_div n 1000000 < 10 ^ 21"
    using that by (intro formatNumber_M_any) simp_all
  show "js_div n 1000000 < 10 ^ 21" if "0 \<le> n \<and> n \<le> 10 ^ 26"
    using that by (intro js_div_below_limit) simp_all
  show "\<bar>js_div n c - n / c\<bar> \<le> \<bar>n / c\<bar> / 2 ^ 53"
    unfolding js_div_def by (rule to_double_err)
  show "\<exists>j. formatNumber (of_nat m) = one_decimal j @ ''K'' \<and>
           \<bar>of_nat j / 10 - (of_nat m :: rat) / 1000\<bar> \<le> 1 / 20"
    if "1000 \<le> m \<and> m \<le> 999999"
    using that by (intro formatNumber_K) (simp_all add: MAX_SAFE_INTEGER_def)
  show "\<exists>j. formatNumber (of_nat m) = one_decimal j @ ''M'' \<and>
           \<bar>of_nat j / 10 - (of_nat m :: rat) / 1000000\<bar> \<le> 1 / 20"
    if "1000000 \<le> m \<and> m \<le> MAX_SAFE_INTEGER"
    using that by (intro formatNumber_M) simp_all
next
  assume a: "1000000 \<le> n \<and> 10 ^ 21 \<le> js_div n 1000000"
  then show e: "formatNumber n = number_toString (js_div n 1000000) @ ''M''"
    by (intro formatNumber_exponent) simp_all
  obtain ds e where "number_toString (js_div n 1000000) = ds @ ''e+'' @ show_nat e" "21 \<le> e"
    using number_toString_exponent [of "js_div n 1000000"] a by blast
  then show "\<exists>ds e. formatNumber n = ds @ ''e+'' @ show_nat e @ ''M'' \<and> 21 \<le> e"
    using e by (intro exI [of _ ds] exI [of _ e]) simp
  from a show "formatNumber n \<noteq> one_decimal k @ ''M''"
    by (intro formatNumber_not_one_decimal) simp_all
qed (rule formatNumber_999 formatNumber_1500 formatNumber_2300000)+

theorem formatNumber_spec_witness:
  "(1000::rat) \<le> 1500 \<and> (1500::rat) < 1000000 \<and>
   (\<exists>j. formatNumber 1500 = one_decimal j @ ''K'' \<and>
        \<bar>of_nat j / 10 - js_div 1500 1000\<bar> \<le> 1 / 20) \<and>
   (1000000::rat) \<le> 2300000 \<and> js_div 2300000 1000000 < 10 ^ 21 \<and>
   (\<exists>j. formatNumber 2300000 = one_decimal j @ ''M'' \<and>
        \<bar>of_nat j / 10 - js_div 2300000 1000000\<bar> \<le> 1 / 20) \<and>
   (12::nat) < 1000 \<and> formatNumber (of_nat 12) = show_nat 12 \<and>
   (1000::nat) \<le> 1500 \<and> (1500::nat) \<le> 999999 \<and>
   (\<exists>j. formatNumber (of_nat 1500) = one_decimal j @ ''K'' \<and>
        \<bar>of_nat j / 10 - (of_nat 1500 :: rat) / 1000\<bar> \<le> 1 / 20) \<and>
   (1000000::nat) \<le> 2300000 \<and> (2300000::nat) \<le> MAX_SAFE_INTEGER \<and>
   (\<exists>j. formatNumber (of_nat 2300000) = one_decimal j @ ''M'' \<and>
        \<bar>of_nat j / 10 - (of_nat 2300000 :: rat) / 1000000\<bar> \<le> 1 / 20) \<and>
   (1000000::rat) \<le> 2 ^ 90 \<and> (10::rat) ^ 21 \<le> js_div (2 ^ 90) 1000000 \<and>
   formatNumber (2 ^ 90) = number_toString (js_div (2 ^ 90) 1000000) @ ''M'' \<and>
   (12::rat) < 1000 \<and> formatNumber 12 = number_toString 12 \<and>
   (0::rat) \<le> 2300000 \<and> (2300000::rat) \<le> 10 ^ 26"
proof -
  have a: "(1000::rat) \<le> 1500 \<and> (1500::rat) < 1000000" by simp
  have b1: "(1000000::rat) \<le> 2300000" by simp
  have b0: "(0::rat) \<le> 2300000 \<and> (2300000::rat) \<le> 10 ^ 26" by simp
  have g: "(12::rat) < 1000" by simp
  have c: "(12::nat) < 1000" by simp
  have d: "(1000::nat) \<le> 1500 \<and> (1500::nat) \<le> 999999" by simp
  have e: "(1000000::nat) \<le> 2300000 \<and> (2300000::nat) \<le> MAX_SAFE_INTEGER"
    by (simp add: MAX_SAFE_INTEGER_def)
  have f1: "(1000000::rat) \<le> 2 ^ 90" by simp
  have f2: "(10::rat) ^ 21 \<le> js_div (2 ^ 90) 1000000"
    unfolding js_div_2_90 by simp
  note t1 = formatNumber_spec [where n = 1500 and m = 1500]
  note t2 = formatNumber_spec [where n = 2300000 and m = 2300000]
  note t3 = formatNumber_spec [where n = "2 ^ 90" and m = 12]
  note t4 = formatNumber_spec [where n = 12 and m = 12]
  from t2 b0 have b2: "js_div 2300000 1000000 < 10 ^ 21"
    by blast
  from t4 g have v: "formatNumber 12 = number_toString 12"
    by blast
  from t1 a have k: "\<exists>j. formatNumber 1500 = one_decimal j @ ''K'' \<and>
        \<bar>of_nat j / 10 - js_div 1500 1000\<bar> \<le> 1 / 20"
    by blast
  from t2 b1 b2 have m: "\<exists>j. formatNumber 2300000 = one_decimal j @ ''M'' \<and>
        \<bar>of_nat j / 10 - js_div 2300000 1000000\<bar> \<le> 1 / 20"
    by blast
  from t3 c have u: "formatNumber (of_nat 12) = show_nat 12"
    by blast
  from t1 d have k': "\<exists>j. formatNumber (of_nat 1500) = one_decimal j @ ''K'' \<and>
        \<bar>of_nat j / 10 - (of_nat 1500 :: rat) / 1000\<bar> \<le> 1 / 20"
    by blast
  from t2 e have m': "\<exists>j. formatNumber (of_nat 2300000) = one_decimal j @ ''M'' \<and>
        \<bar>of_nat j / 10 - (of_nat 2300000 :: rat) / 1000000\<bar> \<le> 1 / 20"
    by blast
  from t3 f1 f2 have x: "formatNumber (2 ^ 90) = number_toString (js_div (2 ^ 90) 1000000) @ ''M''"
    by blast
  from a b0 b1 b2 c d e f1 f2 g k m u v k' m' x show ?thesis by blast
qed

text \<open>
  Claim C5 as stated fails: \<open>2^90\<close> is a Number and at least \<open>1000000\<close>, and what
  \<open>formatNumber\<close> returns for it is not a numeral with one fractional digit followed by
  \<open>M\<close>.
\<close>

theorem formatNumber_exponent_notation:
  "to_double (2 ^ 90) = 2 ^ 90 \<and> formatNumber (2 ^ 90) = ''1.2379400392853802e+21M''"
proof
  show "to_double (2 ^ 90) = 2 ^ 90"
    by (subst to_double_eval [where e = 90]) (simp_all add: round_half_even_def)
  have "formatNumber (2 ^ 90) = toFixed1 (js_div (2 ^ 90) 1000000) @ ''M''"
    by (simp add: formatNumber_def)
  also have "\<dots> = number_toString 1237940039285380218880 @ ''M''"
    unfolding js_div_2_90 by (simp add: toFixed1_def)
  finally show "formatNumber (2 ^ 90) = ''1.2379400392853802e+21M''"
    by (simp add: number_toString_2_90)
qed


lemma timeAgo_exact:
  assumes "truthy isoString" "parse (tpl isoString) = Some t" "\<bar>now - t\<bar> < 2 ^ 53"
  shows "timeAgo parse now isoString =
           (let m = (now - t) div 60000; h = m div 60
            in if m < 60 then ''hace '' @ show_int m @ ''m''
               else if h < 24 then ''hace '' @ show_int h @ ''h''
               else ''hace '' @ show_int (h div 24) @ ''d'')"
proof -
  define d where "d = now - t"
  define m where "m = d div 60000"
  define h where "h = m div 60"
  have diff: "js_sub (of_int now) (of_int t) = of_int d"
    using to_double_of_int [of "now - t"] assms(3) by (simp add: js_sub_def d_def)
  have db: "\<bar>d\<bar> < 2 ^ 53" using assms(3) by (simp add: d_def)
  have mins: "\<lfloor>js_div (of_int d) 60000\<rfloor> = m"
    using floor_js_div [of d 60000] db by (simp add: m_def)
  have mb: "\<bar>m\<bar> < 2 ^ 53"
    using abs_div_le_int [of 60000 d] db unfolding m_def by linarith
  have hrs: "\<lfloor>js_div (of_int m) 60\<rfloor> = h"
    using floor_js_div [of m 60] mb by (simp add: h_def)
  have hb: "\<bar>h\<bar> < 2 ^ 53"
    using abs_div_le_int [of 60 m] mb unfolding h_def by linarith
  have days: "\<lfloor>js_div (of_int h) 24\<rfloor> = h div 24"
    using floor_js_div [of h 24] hb by simp
  have "timeAgo parse now isoString =
          (if m < 60 then ''hace '' @ show_int m @ ''m''
           else if h < 24 then ''hace '' @ show_int h @ ''h''
           else ''hace '' @ show_int (h div 24) @ ''d'')"
    unfolding timeAgo_def
    by (simp only: assms(1) assms(2) diff mins hrs days Let_def option.simps simp_thms if_False)
  then show ?thesis by (simp add: Let_def d_def m_def h_def)
qed

text \<open>
  Claim C6. \<open>timeAgo\<close> returns the empty string for a falsy argument (the empty
  string, \<open>null\<close>, \<open>undefined\<close>). Otherwise, for a timestamp \<open>t\<close> whose distance
  to the clock is below \<open>2^53\<close> milliseconds (every valid date, on any clock before
  the year 13600), with \<open>m\<close> the whole number of elapsed minutes, it returns the
  minutes form when \<open>m < 60\<close>, else the hours form when the whole hours are below 24,
  else the days form. A timestamp 90 seconds in the past gives \<open>hace 1m\<close>, one 3
  hours in the past \<open>hace 3h\<close>. A string that is no date has the time value
  \<open>NaN\<close>, fails both comparisons and comes out in the days form, as \<open>hace NaNd\<close>.
\<close>

theorem timeAgo_spec:
  "(\<not> truthy isoString \<longrightarrow> timeAgo parse now isoString = '''') \<and>
   (truthy isoString \<and> parse (tpl isoString) = Some t \<and> \<bar>now - t\<bar> < 2 ^ 53 \<longrightarrow>
      timeAgo parse now isoString =
        (let m = (now - t) div 60000; h = m div 60
         in if m < 60 then ''hace '' @ show_int m @ ''m''
            else if h < 24 then ''hace '' @ show_int h @ ''h''
            else ''hace '' @ show_int (h div 24) @ ''d'')) \<and>
   (truthy isoString \<and> parse (tpl isoString) = Some (now - 90 * 1000) \<longrightarrow>
      timeAgo parse now isoString = ''hace 1m'') \<and>
   (truthy isoString \<and> parse (tpl isoString) = Some (now - 3 * 3600 * 1000) \<longrightarrow>
      timeAgo parse now isoString = ''hace 3h'') \<and>
   (truthy isoString \<and> parse (tpl isoString) = None \<longrightarrow>
      timeAgo parse now isoString = ''hace NaNd'') \<and>
   timeAgo parse now (Str '''') = '''' \<and>
   timeAgo parse now Null = '''' \<and>
   timeAgo parse now Undefined = ''''"
proof (intro conjI impI)
  show "timeAgo parse now isoString = ''''" if "\<not> truthy isoString"
    using that by (simp add: timeAgo_def)
  show "timeAgo parse now isoString = ''hace NaNd''"
    if "truthy isoString \<and> parse (tpl isoString) = None"
    using that by (simp add: timeAgo_def)
  show "timeAgo parse now isoString =
        (let m = (now - t) div 60000; h = m div 60
         in if m < 60 then ''hace '' @ show_int m @ ''m''
            else if h < 24 then ''hace '' @ show_int h @ ''h''
            else ''hace '' @ show_int (h div 24) @ ''d'')"
    if "truthy isoString \<and> parse (tpl isoString) = Some t \<and> \<bar>now - t\<bar> < 2 ^ 53"
    using that by (intro timeAgo_exact) simp_all
  show "timeAgo parse now isoString = ''hace 1m''"
    if "truthy isoString \<and> parse (tpl isoString) = Some (now - 90 * 1000)"
    using that timeAgo_exact [of isoString parse "now - 90 * 1000" now]
    by (simp add: show_int_def show_nat.simps digit_char_def)
  show "timeAgo parse now isoString = ''hace 3h''"
    if "truthy isoString \<and> parse (tpl isoString) = Some (now - 3 * 3600 * 1000)"
    using that timeAgo_exact [of isoString parse "now - 3 * 3600 * 1000" now]
    by (simp add: show_int_def show_nat.simps digit_char_def)
qed (simp_all add: timeAgo_def truthy_def)

theorem timeAgo_spec_witness:
  "truthy (Str ''2024-05-01T10:00:00Z'') \<and>
   (\<lambda>s. Some 1714557600000) (tpl (Str ''2024-05-01T10:00:00Z'')) = Some (1714557600000::int) \<and>
   \<bar>1714557725000 - 1714557600000\<bar> < (2::int) ^ 53 \<and>
   timeAgo (\<lambda>s. Some 1714557600000) 1714557725000 (Str ''2024-05-01T10:00:00Z'') = ''hace 2m'' \<and>
   \<not> truthy Null \<and> timeAgo (\<lambda>s. Some 1714557600000) 1714557725000 Null = ''''"
  using timeAgo_spec [of "Str ''2024-05-01T10:00:00Z''" "\<lambda>s. Some 1714557600000" 1714557725000 1714557600000]
    timeAgo_spec [of Null "\<lambda>s. Some 1714557600000" 1714557725000 0]
  by (simp add: truthy_def show_int_def show_nat.simps digit_char_def)

section \<open>What the renderers write\<close>

lemma appendChildren_eq: "appendChildren container elems = container @ elems"
  unfolding appendChildren_def by (induction elems arbitrary: container) simp_all

lemma renderTopArtists_eq:
  "renderTopArtists artists s =
     s\<lparr>statTopArtist := (case artists of [] \<Rightarrow> statTopArtist s | a # _ \<Rightarrow> text_of (artist_name a)),
       artistsGrid := map (\<lambda>(i, a). artist_card i a) (enumerate 0 artists)\<rparr>"
  by (simp add: renderTopArtists_def Let_def appendChildren_eq split: list.splits)

lemma renderTopTracks_eq:
  "renderTopTracks tracks s =
     s\<lparr>statTopTrack := (case tracks of [] \<Rightarrow> statTopTrack s | t # _ \<Rightarrow> text_of (track_name t)),
       tracksList := map (\<lambda>(i, t). track_item i t) (enumerate 0 tracks)\<rparr>"
  by (simp add: renderTopTracks_def Let_def appendChildren_eq split: list.splits)

lemma renderRecentTracks_eq:
  "renderRecentTracks e tracks s = s\<lparr>recentList := map (recent_item e) tracks\<rparr>"
  by (simp add: renderRecentTracks_def Let_def appendChildren_eq)

lemma renderRecommendations_eq:
  "renderRecommendations d s =
     (let s2 = s\<lparr>recommendationsGrid := [],
                  profileDescription :=
                    (if truthy (profile_description d)
                     then note_emoji @ '' Tu perfil: '' @ tpl (profile_description d)
                     else profileDescription s)\<rparr>
      in case recommendations d of
           None \<Rightarrow> s2\<lparr>recommendationsGrid := [empty_recommendations]\<rparr>
         | Some [] \<Rightarrow> s2\<lparr>recommendationsGrid := [empty_recommendations]\<rparr>
         | Some (t # ts) \<Rightarrow> s2\<lparr>recommendationsGrid := map rec_card (t # ts), currentAudio := None\<rparr>)"
  by (simp add: renderRecommendations_def Let_def appendChildren_eq split: list.splits option.splits)

lemma renderGenres_Nil: "renderGenres [] s = s"
  by (simp add: renderGenres_def)

lemma renderGenres_Cons:
  "renderGenres (g # gs) s =
     (let s3 = s\<lparr>statTopGenre := fst g,
                  genresList := map (\<lambda>(i, e). genre_item i e) (enumerate 0 (take 10 (g # gs)))\<rparr>;
          s4 = (case genreChart s of None \<Rightarrow> s3 | Some c \<Rightarrow> chart_destroy c s3)
      in s4\<lparr>genreChart := Some (length (charts s)), charts := charts s4 @ [new_chart (g # gs)]\<rparr>)"
  by (simp add: renderGenres_def renderGenres_list_def renderGenres_destroy_def
      renderGenres_construct_def Let_def appendChildren_eq chart_destroy_def split: option.splits)

lemma renderGenres_twice:
  "charts (renderGenres (g # gs) (renderGenres (g # gs) s)) =
     butlast (charts (renderGenres (g # gs) s))
     @ [(new_chart (g # gs))\<lparr>chart_destroyed := True\<rparr>, new_chart (g # gs)]"
  by (simp add: renderGenres_Cons Let_def chart_destroy_def list_update_append nth_append
      split: option.splits)

lemma renderGenres_once_charts:
  "charts (renderGenres (g # gs) s) = butlast (charts (renderGenres (g # gs) s)) @ [new_chart (g # gs)]"
  by (simp add: renderGenres_Cons Let_def chart_destroy_def split: option.splits)

lemma renderGenres_idem:
  "renderGenres g (renderGenres g s) =
     (renderGenres g s)\<lparr>genreChart := genreChart (renderGenres g (renderGenres g s)),
                          charts := charts (renderGenres g (renderGenres g s))\<rparr>"
proof (cases g)
  case Nil
  then show ?thesis by (simp add: renderGenres_Nil)
next
  case (Cons g0 gs)
  show ?thesis unfolding Cons
    by (simp add: renderGenres_Cons Let_def chart_destroy_def split: option.splits)
qed

lemma renderGenres_idem_alive:
  "alive_charts (renderGenres g (renderGenres g s)) = alive_charts (renderGenres g s)"
proof (cases g)
  case Nil
  then show ?thesis by (simp add: renderGenres_Nil)
next
  case (Cons g0 gs)
  have "alive_charts (renderGenres (g0 # gs) (renderGenres (g0 # gs) s)) =
        filter (\<lambda>c. \<not> chart_destroyed c) (butlast (charts (renderGenres (g0 # gs) s))) @ [new_chart (g0 # gs)]"
    unfolding alive_charts_def renderGenres_twice by (simp add: new_chart_def)
  also have "\<dots> = alive_charts (renderGenres (g0 # gs) s)"
    unfolding alive_charts_def by (subst (2) renderGenres_once_charts) (simp add: new_chart_def)
  finally show ?thesis unfolding Cons .
qed

text \<open>
  Claim C7. Every renderer is idempotent: run twice in succession on the same input
  it leaves the state it leaves when run once. For \<open>renderRecentTracks\<close>, which reads
  the clock, the second run alone decides the content, whatever the clock showed at
  the first. For \<open>renderGenres\<close> the page is the same and so are the charts alive; the
  chart store differs by the chart the second run destroyed and the identical one it
  created.
\<close>

theorem renderers_idempotent:
  "renderProfile p (renderProfile p s) = renderProfile p s \<and>
   renderStats p (renderStats p s) = renderStats p s \<and>
   renderTopArtists artists (renderTopArtists artists s) = renderTopArtists artists s \<and>
   renderTopTracks tracks (renderTopTracks tracks s) = renderTopTracks tracks s \<and>
   renderRecentTracks e' recent (renderRecentTracks e recent s) = renderRecentTracks e' recent s \<and>
   renderRecommendations d (renderRecommendations d s) = renderRecommendations d s \<and>
   renderGenres g (renderGenres g s) =
     (renderGenres g s)\<lparr>genreChart := genreChart (renderGenres g (renderGenres g s)),
                          charts := charts (renderGenres g (renderGenres g s))\<rparr> \<and>
   alive_charts (renderGenres g (renderGenres g s)) = alive_charts (renderGenres g s)"
proof (intro conjI)
  show "renderProfile p (renderProfile p s) = renderProfile p s"
    by (simp add: renderProfile_def Let_def)
  show "renderStats p (renderStats p s) = renderStats p s"
    by (simp add: renderStats_def)
  show "renderTopArtists artists (renderTopArtists artists s) = renderTopArtists artists s"
    by (simp add: renderTopArtists_eq split: list.splits)
  show "renderTopTracks tracks (renderTopTracks tracks s) = renderTopTracks tracks s"
    by (simp add: renderTopTracks_eq split: list.splits)
  show "renderRecentTracks e' recent (renderRecentTracks e recent s) = renderRecentTracks e' recent s"
    by (simp add: renderRecentTracks_eq)
  show "renderRecommendations d (renderRecommendations d s) = renderRecommendations d s"
    by (simp add: renderRecommendations_eq Let_def split: option.splits list.splits)
qed (rule renderGenres_idem renderGenres_idem_alive)+

text \<open>
  Claim C8, amended. \<open>renderTopArtists\<close>, \<open>renderTopTracks\<close> and
  \<open>renderRecentTracks\<close> replace the content of their container, whatever it was, by
  exactly one element per input record, in order, also for an empty list.
  \<open>renderGenres\<close> does so with the first ten entries of a non-empty histogram, and
  changes nothing for an empty one. \<open>renderRecommendations\<close> replaces the grid by one
  card per recommendation, or by the single empty-state message when the list is
  missing or empty.
\<close>

theorem renderers_replace_content:
  "artistsGrid (renderTopArtists artists s) = map (\<lambda>(i, a). artist_card i a) (enumerate 0 artists) \<and>
   length (artistsGrid (renderTopArtists artists s)) = length artists \<and>
   tracksList (renderTopTracks tracks s) = map (\<lambda>(i, t). track_item i t) (enumerate 0 tracks) \<and>
   length (tracksList (renderTopTracks tracks s)) = length tracks \<and>
   recentList (renderRecentTracks e recent s) = map (recent_item e) recent \<and>
   length (recentList (renderRecentTracks e recent s)) = length recent \<and>
   (g \<noteq> [] \<longrightarrow>
      genresList (renderGenres g s) = map (\<lambda>(i, x). genre_item i x) (enumerate 0 (take 10 g)) \<and>
      length (genresList (renderGenres g s)) = min 10 (length g)) \<and>
   renderGenres [] s = s \<and>
   recommendationsGrid (renderRecommendations d s) =
     (case recommendations d of
        None \<Rightarrow> [empty_recommendations]
      | Some [] \<Rightarrow> [empty_recommendations]
      | Some (t # ts) \<Rightarrow> map rec_card (t # ts))"
proof (intro conjI impI)
  show "genresList (renderGenres g s) = map (\<lambda>(i, x). genre_item i x) (enumerate 0 (take 10 g))"
    if "g \<noteq> []"
    using that by (cases g) (simp_all add: renderGenres_Cons Let_def chart_destroy_def split: option.splits)
  then show "length (genresList (renderGenres g s)) = min 10 (length g)" if "g \<noteq> []"
    using that by (simp add: min.commute)
  show "recommendationsGrid (renderRecommendations d s) =
     (case recommendations d of
        None \<Rightarrow> [empty_recommendations]
      | Some [] \<Rightarrow> [empty_recommendations]
      | Some (t # ts) \<Rightarrow> map rec_card (t # ts))"
    by (simp add: renderRecommendations_eq Let_def split: option.splits list.splits)
qed (simp_all add: renderTopArtists_eq renderTopTracks_eq renderRecentTracks_eq renderGenres_Nil)

theorem renderers_replace_content_witness:
  "[(''rock'', 3::nat)] \<noteq> [] \<and>
   genresList (renderGenres [(''rock'', 3)] initial_state) = [genre_item 0 (''rock'', 3)] \<and>
   length (genresList (renderGenres [(''rock'', 3)] initial_state)) = 1"
  using renderers_replace_content [where g = "[(''rock'', 3)]" and s = initial_state]
  by (simp add: enumerate_eq_zip)

text \<open>
  Claim C8 as stated fails: after a render of one genre, a render of the empty
  histogram leaves the list of genres filled.
\<close>

theorem renderGenres_empty_keeps_list:
  "genresList (renderGenres [] (renderGenres [(''rock'', 3)] initial_state)) \<noteq> []"
  by (simp add: renderGenres_Nil renderGenres_Cons Let_def appendChildren_eq enumerate_eq_zip initial_state_def
      chart_destroy_def)

section \<open>Loading and reloading\<close>

text \<open>
  Claim C9 as stated fails: a successful reload with one artist changes the stat card
  of the top artist.
\<close>

theorem reload_rewrites_stat_card:
  "statTopArtist (reloadWithTimeRange ''short_term'' sample_env initial_state)
     \<noteq> statTopArtist initial_state"
  by (simp add: reloadWithTimeRange_def apiFetch_def apiFetch_settles_def sample_env_def
      response_ok_def promise_all2_def Let_def renderTopArtists_eq renderTopTracks_eq
      sample_artist_def text_of_def initial_state_def)

text \<open>
  Claim C9, amended. A successful time-range reload writes \<open>currentTimeRange\<close>, sends
  the two requests, replaces the artists grid and the tracks list, and writes the two
  stat cards of the top artist and the top track (each only when its list is not
  empty). Everything else (profile, the followers and genre stat cards, genres,
  charts, recent plays, recommendations, loading screen, console) is unchanged.
\<close>

theorem reload_success_frame:
  assumes "apiFetch_settles e (''/api/top/artists?time_range='' @ timeRange @ ''&limit=10'')
             = Inr (ArtistsJson artists)"
    and "apiFetch_settles e (''/api/top/tracks?time_range='' @ timeRange @ ''&limit=10'')
             = Inr (TracksJson tracks)"
  shows "reloadWithTimeRange timeRange e s =
           s\<lparr>currentTimeRange := timeRange,
             requests := requests s @ [''/api/top/artists?time_range='' @ timeRange @ ''&limit=10'',
                                       ''/api/top/tracks?time_range='' @ timeRange @ ''&limit=10''],
             statTopArtist := (case artists of [] \<Rightarrow> statTopArtist s | a # _ \<Rightarrow> text_of (artist_name a)),
             artistsGrid := map (\<lambda>(i, a). artist_card i a) (enumerate 0 artists),
             statTopTrack := (case tracks of [] \<Rightarrow> statTopTrack s | t # _ \<Rightarrow> text_of (track_name t)),
             tracksList := map (\<lambda>(i, t). track_item i t) (enumerate 0 tracks)\<rparr>"
  using assms
  by (simp add: reloadWithTimeRange_def apiFetch_def promise_all2_def Let_def
      renderTopArtists_eq renderTopTracks_eq split: list.splits)

theorem reload_success_frame_witness:
  "apiFetch_settles sample_env (''/api/top/artists?time_range='' @ ''short_term'' @ ''&limit=10'')
     = Inr (ArtistsJson [sample_artist]) \<and>
   apiFetch_settles sample_env (''/api/top/tracks?time_range='' @ ''short_term'' @ ''&limit=10'')
     = Inr (TracksJson []) \<and>
   statTopArtist (reloadWithTimeRange ''short_term'' sample_env initial_state) = ''Rosalia'' \<and>
   statTopTrack (reloadWithTimeRange ''short_term'' sample_env initial_state) = [] \<and>
   statTopGenre (reloadWithTimeRange ''short_term'' sample_env initial_state) = [] \<and>
   recentList (reloadWithTimeRange ''short_term'' sample_env initial_state) = []"
proof -
  have a: "apiFetch_settles sample_env (''/api/top/artists?time_range='' @ ''short_term'' @ ''&limit=10'')
     = Inr (ArtistsJson [sample_artist])"
    by (simp add: apiFetch_settles_def sample_env_def response_ok_def)
  have t: "apiFetch_settles sample_env (''/api/top/tracks?time_range='' @ ''short_term'' @ ''&limit=10'')
     = Inr (TracksJson [])"
    by (simp add: apiFetch_settles_def sample_env_def response_ok_def)
  show ?thesis
    using a t reload_success_frame [OF a t, of initial_state]
    by (simp add: initial_state_def sample_artist_def text_of_def)
qed

text \<open>
  Claim C2. If one of the two fetches of a time-range reload fails, neither renderer
  runs: the resulting state is the state before with \<open>currentTimeRange\<close> written, the
  two requests sent and one entry added to the console, the message of a failed
  fetch. No part of the page changes.
\<close>

theorem reload_failure_keeps_page:
  assumes "isl (apiFetch_settles e (''/api/top/artists?time_range='' @ timeRange @ ''&limit=10''))
         \<or> isl (apiFetch_settles e (''/api/top/tracks?time_range='' @ timeRange @ ''&limit=10''))"
  shows "\<exists>msg. (apiFetch_settles e (''/api/top/artists?time_range='' @ timeRange @ ''&limit=10'') = Inl msg
               \<or> apiFetch_settles e (''/api/top/tracks?time_range='' @ timeRange @ ''&limit=10'') = Inl msg)
             \<and> reloadWithTimeRange timeRange e s =
                 s\<lparr>currentTimeRange := timeRange,
                   requests := requests s @ [''/api/top/artists?time_range='' @ timeRange @ ''&limit=10'',
                                             ''/api/top/tracks?time_range='' @ timeRange @ ''&limit=10''],
                   console := console s @ [(''Error recargando por tiempo:'', msg)]\<rparr>"
  using assms
  by (auto simp add: reloadWithTimeRange_def apiFetch_def promise_all2_def Let_def console_error_def
      isl_def split: sum.splits)

theorem reload_failure_keeps_page_witness:
  "isl (apiFetch_settles sample_env (''/api/top/artists?time_range='' @ ''long_term'' @ ''&limit=10'')) \<and>
   artistsGrid (reloadWithTimeRange ''long_term'' sample_env initial_state) = [] \<and>
   statTopArtist (reloadWithTimeRange ''long_term'' sample_env initial_state) = [] \<and>
   length (console (reloadWithTimeRange ''long_term'' sample_env initial_state)) = 1"
proof -
  have a: "isl (apiFetch_settles sample_env (''/api/top/artists?time_range='' @ ''long_term'' @ ''&limit=10''))"
    by (simp add: apiFetch_settles_def sample_env_def response_ok_def)
  then have "isl (apiFetch_settles sample_env (''/api/top/artists?time_range='' @ ''long_term'' @ ''&limit=10''))
         \<or> isl (apiFetch_settles sample_env (''/api/top/tracks?time_range='' @ ''long_term'' @ ''&limit=10''))"
    by (rule disjI1)
  from reload_failure_keeps_page [OF this, of initial_state]
  obtain msg where "reloadWithTimeRange ''long_term'' sample_env initial_state =
      initial_state\<lparr>currentTimeRange := ''long_term'',
        requests := requests initial_state @ [''/api/top/artists?time_range='' @ ''long_term'' @ ''&limit=10'',
                                  ''/api/top/tracks?time_range='' @ ''long_term'' @ ''&limit=10''],
        console := console initial_state @ [(''Error recargando por tiempo:'', msg)]\<rparr>"
    by blast
  then show ?thesis using a by (simp add: initial_state_def)
qed

text \<open>
  Claim C1. If the summary fetch answers with a status outside 200 to 299,
  \<open>loadDashboard\<close> sets the loading flags, logs the error and replaces the content of
  the loading screen by a paragraph holding the message \<open>Error <status> en
  /api/dashboard/summary\<close> and a link to \<open>/\<close>. Nothing else is written: no
  renderer runs, and the dashboard content has \<open>display\<close> \<open>none\<close> from
  \<open>setLoading(true)\<close> to the end.
\<close>

theorem loadDashboard_http_error:
  assumes "server e ''/api/dashboard/summary'' = HttpResponse status body"
    and "\<not> response_ok status"
  shows "loadDashboard timeRange e s =
           (setLoading True s)
             \<lparr>requests := requests s @ [''/api/dashboard/summary''],
               console := console s @ [(''Error cargando el dashboard:'',
                                        ''Error '' @ show_nat status @ '' en '' @ ''/api/dashboard/summary'')],
               loadingScreen_innerHTML :=
                 [Elem ''p'' [] [(''style'', ''color:#ef4444'')]
                    [Text (cross_emoji @ '' Error al cargar datos: ''
                           @ ''Error '' @ show_nat status @ '' en '' @ ''/api/dashboard/summary'')],
                  Elem ''a'' [] [(''href'', ''/''), (''style'', ''color:#1db954;margin-top:1rem'')]
                    [Text ''Volver al inicio'']]\<rparr> \<and>
         dashboardContent_display (setLoading True s) = ''none'' \<and>
         dashboardContent_display (loadDashboard timeRange e s) = ''none''"
  using assms
  by (simp add: loadDashboard_def apiFetch_def apiFetch_settles_def Let_def load_failed_def
      console_error_def load_error_screen_def setLoading_def)

theorem loadDashboard_http_error_witness:
  "server sample_env ''/api/dashboard/summary'' = HttpResponse 500 None \<and>
   \<not> response_ok 500 \<and>
   dashboardContent_display (loadDashboard ''medium_term'' sample_env initial_state) = ''none'' \<and>
   loadingScreen_innerHTML (loadDashboard ''medium_term'' sample_env initial_state) =
     [Elem ''p'' [] [(''style'', ''color:#ef4444'')]
        [Text (cross_emoji @ '' Error al cargar datos: Error 500 en /api/dashboard/summary'')],
      Elem ''a'' [] [(''href'', ''/''), (''style'', ''color:#1db954;margin-top:1rem'')]
        [Text ''Volver al inicio'']] \<and>
   artistsGrid (loadDashboard ''medium_term'' sample_env initial_state) = []"
proof -
  have a: "server sample_env ''/api/dashboard/summary'' = HttpResponse 500 None"
    by (simp add: sample_env_def)
  have b: "\<not> response_ok 500" by (simp add: response_ok_def)
  show ?thesis
    using a b loadDashboard_http_error [OF a b, of "''medium_term''" initial_state]
    by (simp add: setLoading_def initial_state_def show_nat.simps digit_char_def)
qed

lemma renderGenres_frame:
  "currentTimeRange (renderGenres g s) = currentTimeRange s"
  "requests (renderGenres g s) = requests s"
  by (cases g; simp add: renderGenres_Nil renderGenres_Cons Let_def chart_destroy_def split: option.splits)+

lemma renderRecommendations_frame:
  "currentTimeRange (renderRecommendations d s) = currentTimeRange s"
  "requests (renderRecommendations d s) = requests s"
  by (simp_all add: renderRecommendations_eq Let_def split: option.splits list.splits)

lemma loadRecommendations_frame:
  "currentTimeRange (loadRecommendations e s) = currentTimeRange s"
  "requests (loadRecommendations e s) = requests s @ [''/api/recommendations'']"
  by (simp_all add: loadRecommendations_def apiFetch_def Let_def renderRecommendations_frame
      split: sum.splits)

lemma loadDashboard_frame:
  "currentTimeRange (loadDashboard timeRange e s) = currentTimeRange s"
  "take (Suc (length (requests s))) (requests (loadDashboard timeRange e s))
     = requests s @ [''/api/dashboard/summary'']"
  by (simp_all add: loadDashboard_def apiFetch_def Let_def load_failed_def console_error_def
      setLoading_def loadRecommendations_frame renderRecentTracks_eq renderGenres_frame
      renderTopTracks_eq renderTopArtists_eq renderStats_def renderProfile_def
      split: sum.splits payload.splits)

text \<open>
  Claim C10. The parameter \<open>timeRange\<close> of \<open>loadDashboard\<close> has no effect: for any
  two values the resulting states are equal, requests sent and console included. The
  first request is the summary URL, which does not mention the range, and
  \<open>currentTimeRange\<close> is not written.
\<close>

theorem loadDashboard_ignores_timeRange:
  "loadDashboard timeRange1 e s = loadDashboard timeRange2 e s \<and>
   currentTimeRange (loadDashboard timeRange1 e s) = currentTimeRange s \<and>
   take (Suc (length (requests s))) (requests (loadDashboard timeRange1 e s))
     = requests s @ [''/api/dashboard/summary'']"
  by (simp add: loadDashboard_frame) (simp add: loadDashboard_def)

section \<open>One chart\<close>

lemma filter_at_most_one:
  assumes "\<And>i j. i < length xs \<Longrightarrow> j < length xs \<Longrightarrow> P (xs ! i) \<Longrightarrow> P (xs ! j) \<Longrightarrow> i = j"
  shows "length (filter P xs) \<le> 1"
  using assms
proof (induction xs)
  case Nil
  then show ?case by simp
next
  case (Cons x xs)
  have step: "\<And>i j. i < length xs \<Longrightarrow> j < length xs \<Longrightarrow> P (xs ! i) \<Longrightarrow> P (xs ! j) \<Longrightarrow> i = j"
  proof -
    fix i j
    assume "i < length xs" "j < length xs" "P (xs ! i)" "P (xs ! j)"
    then have "Suc i = Suc j" by (intro Cons.prems) simp_all
    then show "i = j" by simp
  qed
  show ?case
  proof (cases "P x")
    case True
    have "filter P xs = []"
    proof (rule ccontr)
      assume "filter P xs \<noteq> []"
      then obtain y where "y \<in> set xs" "P y"
        by (metis filter_empty_conv)
      then obtain i where "i < length xs" "P (xs ! i)" by (metis in_set_conv_nth)
      then have "Suc i = 0" using True by (intro Cons.prems) simp_all
      then show False by simp
    qed
    then show ?thesis using True by simp
  next
    case False
    then show ?thesis using Cons.IH [OF step] by simp
  qed
qed

lemma chart_inv_initial: "chart_inv initial_state"
  by (simp add: chart_inv_def initial_state_def)

lemma chart_inv_alive_le: "chart_inv s \<Longrightarrow> length (alive_charts s) \<le> 1"
  unfolding alive_charts_def chart_inv_def
  by (intro filter_at_most_one) auto

lemma chart_inv_alive_count:
  assumes "chart_inv s"
  shows "length (alive_charts s) = (if genreChart s = None then 0 else 1)"
proof (cases "genreChart s")
  case None
  then have "\<forall>c \<in> set (charts s). chart_destroyed c"
    using assms by (auto simp: chart_inv_def in_set_conv_nth)
  then have "alive_charts s = []" by (simp add: alive_charts_def)
  then show ?thesis using None by simp
next
  case (Some c)
  then have c: "c < length (charts s)" "\<not> chart_destroyed (charts s ! c)"
    using assms by (auto simp: chart_inv_def)
  then have "charts s ! c \<in> set (alive_charts s)"
    by (simp add: alive_charts_def)
  then have "1 \<le> length (alive_charts s)" by (cases "alive_charts s") auto
  with chart_inv_alive_le [OF assms] have "length (alive_charts s) = 1" by linarith
  then show ?thesis using Some by simp
qed

lemma chart_inv_renderGenres:
  assumes "chart_inv s"
  shows "chart_inv (renderGenres g s)"
proof (cases g)
  case Nil
  then show ?thesis using assms by (simp add: renderGenres_Nil)
next
  case (Cons g0 gs)
  show ?thesis
    using assms unfolding Cons
    by (auto simp add: chart_inv_def renderGenres_Cons Let_def chart_destroy_def nth_append
        nth_list_update new_chart_def split: option.splits)
qed

lemma genreChart_renderGenres:
  "(genreChart (renderGenres g s) = None) = (g = [] \<and> genreChart s = None)"
  by (cases g) (simp_all add: renderGenres_Nil renderGenres_Cons Let_def)

lemma renderGenres_calls_inv:
  "chart_inv s \<Longrightarrow> chart_inv (renderGenres_calls inputs s)"
  unfolding renderGenres_calls_def
  by (induction inputs arbitrary: s) (simp_all add: chart_inv_renderGenres)

lemma renderGenres_calls_genreChart:
  "(genreChart (renderGenres_calls inputs s) = None) = ((\<forall>g \<in> set inputs. g = []) \<and> genreChart s = None)"
  unfolding renderGenres_calls_def
  by (induction inputs arbitrary: s) (auto simp add: genreChart_renderGenres)

lemma renderGenres_destroys_old:
  assumes "genreChart s = Some c" "c < length (charts s)" "g \<noteq> []"
  shows "chart_destroyed (charts (renderGenres g s) ! c)"
    and "genreChart (renderGenres g s) = Some (length (charts s))"
    and "charts (renderGenres g s) ! length (charts s) = new_chart g"
  using assms
  by (cases g; simp add: renderGenres_Cons Let_def chart_destroy_def nth_append)+

lemma renderGenres_list_charts:
  "charts (renderGenres_list g s) = charts s" "genreChart (renderGenres_list g s) = genreChart s"
  by (simp_all add: renderGenres_list_def Let_def)

lemma renderGenres_destroy_length:
  "length (charts (renderGenres_destroy s)) = length (charts s)"
  by (simp add: renderGenres_destroy_def chart_destroy_def split: option.splits)

lemma renderGenres_destroy_genreChart:
  "genreChart (renderGenres_destroy s) = genreChart s"
  by (simp add: renderGenres_destroy_def chart_destroy_def split: option.splits)

lemma renderGenres_destroy_nth:
  assumes "genreChart s = Some c" "c < length (charts s)"
  shows "chart_destroyed (charts (renderGenres_destroy s) ! c)"
  using assms by (simp add: renderGenres_destroy_def chart_destroy_def)

lemma renderGenres_destroy_none_alive:
  assumes "chart_inv s"
  shows "alive_charts (renderGenres_destroy s) = []"
proof -
  have "chart_destroyed (charts (renderGenres_destroy s) ! i)"
    if "i < length (charts (renderGenres_destroy s))" for i
  proof (cases "genreChart s")
    case None
    then show ?thesis
      using assms that by (simp add: renderGenres_destroy_def chart_inv_def)
  next
    case (Some c)
    then show ?thesis
      using assms that
      by (cases "i = c") (auto simp add: renderGenres_destroy_def chart_destroy_def chart_inv_def
          nth_list_update)
  qed
  then have "\<forall>x \<in> set (charts (renderGenres_destroy s)). chart_destroyed x"
    by (auto simp: in_set_conv_nth)
  then show ?thesis by (simp add: alive_charts_def)
qed

lemma chart_inv_renderGenres_list: "chart_inv (renderGenres_list g s) = chart_inv s"
  by (simp add: chart_inv_def renderGenres_list_charts cong: option.case_cong)

lemma renderGenres_construct_charts:
  "charts (renderGenres_construct g t) = charts t @ [new_chart g]"
  "genreChart (renderGenres_construct g t) = Some (length (charts t))"
  by (simp_all add: renderGenres_construct_def)

text \<open>
  Claim C4, amended. After any sequence of \<open>renderGenres\<close> calls at most one chart
  is alive. From the initial state exactly one is alive if and only if one of the calls
  had a non-empty histogram; in particular two calls leave one chart alive unless both
  histograms are empty, and then none. A call with a non-empty histogram destroys the
  chart \<open>genreChart\<close> refers to before it constructs the new one: the call is the
  construction applied to the state the destruction leaves, and in that state, between
  the two, the chart \<open>genreChart\<close> referred to is destroyed, no chart is alive and
  no chart object has been added yet; the construction then appends the new chart,
  stores it in \<open>genreChart\<close> and touches no other chart.
\<close>

theorem renderGenres_chart_instances:
  "(chart_inv s \<longrightarrow> length (alive_charts (renderGenres_calls inputs s)) \<le> 1) \<and>
   (length (alive_charts (renderGenres_calls inputs initial_state)) = 1)
      = (\<exists>g \<in> set inputs. g \<noteq> []) \<and>
   length (alive_charts (renderGenres g2 (renderGenres g1 initial_state)))
      = (if g1 = [] \<and> g2 = [] then 0 else 1) \<and>
   (genreChart s = Some c \<and> c < length (charts s) \<and> g \<noteq> [] \<longrightarrow>
      chart_destroyed (charts (renderGenres g s) ! c) \<and>
      genreChart (renderGenres g s) = Some (length (charts s)) \<and>
      charts (renderGenres g s) ! length (charts s) = new_chart g) \<and>
   (g \<noteq> [] \<longrightarrow>
      renderGenres g s = renderGenres_construct g (renderGenres_destroy (renderGenres_list g s))) \<and>
   (genreChart s = Some c \<and> c < length (charts s) \<longrightarrow>
      chart_destroyed (charts (renderGenres_destroy (renderGenres_list g s)) ! c) \<and>
      length (charts (renderGenres_destroy (renderGenres_list g s))) = length (charts s)) \<and>
   (chart_inv s \<longrightarrow> alive_charts (renderGenres_destroy (renderGenres_list g s)) = []) \<and>
   charts (renderGenres_construct g t) = charts t @ [new_chart g] \<and>
   genreChart (renderGenres_construct g t) = Some (length (charts t))"
proof (intro conjI impI)
  show "length (alive_charts (renderGenres_calls inputs s)) \<le> 1" if "chart_inv s"
    using that by (intro chart_inv_alive_le renderGenres_calls_inv)
  have none: "genreChart initial_state = None" by (simp add: initial_state_def)
  have inv: "chart_inv (renderGenres_calls inputs initial_state)"
    by (intro renderGenres_calls_inv chart_inv_initial)
  show "(length (alive_charts (renderGenres_calls inputs initial_state)) = 1)
      = (\<exists>g \<in> set inputs. g \<noteq> [])"
    using renderGenres_calls_genreChart [of inputs initial_state] none
    by (auto simp add: chart_inv_alive_count [OF inv])
  have "chart_inv (renderGenres g2 (renderGenres g1 initial_state))"
    by (intro chart_inv_renderGenres chart_inv_initial)
  then show "length (alive_charts (renderGenres g2 (renderGenres g1 initial_state)))
      = (if g1 = [] \<and> g2 = [] then 0 else 1)"
    by (simp add: chart_inv_alive_count genreChart_renderGenres none)
  show "renderGenres g s = renderGenres_construct g (renderGenres_destroy (renderGenres_list g s))"
    if "g \<noteq> []"
    using that by (simp add: renderGenres_def)
  show "alive_charts (renderGenres_destroy (renderGenres_list g s)) = []" if "chart_inv s"
    using that by (intro renderGenres_destroy_none_alive) (simp add: chart_inv_renderGenres_list)
  show "charts (renderGenres_construct g t) = charts t @ [new_chart g]"
    by (rule renderGenres_construct_charts)
  show "genreChart (renderGenres_construct g t) = Some (length (charts t))"
    by (rule renderGenres_construct_charts)
next
  assume a: "genreChart s = Some c \<and> c < length (charts s) \<and> g \<noteq> []"
  then show "chart_destroyed (charts (renderGenres g s) ! c)"
    by (intro renderGenres_destroys_old) simp_all
  from a show "genreChart (renderGenres g s) = Some (length (charts s))"
    by (intro renderGenres_destroys_old(2) [of s c]) simp_all
  from a show "charts (renderGenres g s) ! length (charts s) = new_chart g"
    by (intro renderGenres_destroys_old(3) [of s c]) simp_all
next
  assume a: "genreChart s = Some c \<and> c < length (charts s)"
  then show "chart_destroyed (charts (renderGenres_destroy (renderGenres_list g s)) ! c)"
    by (intro renderGenres_destroy_nth) (simp_all add: renderGenres_list_charts)
  show "length (charts (renderGenres_destroy (renderGenres_list g s))) = length (charts s)"
    by (simp add: renderGenres_destroy_length renderGenres_list_charts)
qed

text \<open>
  Claim C4 as stated fails: two calls with the empty histogram leave no chart alive.
\<close>

theorem renderGenres_twice_empty_no_chart:
  "length (alive_charts (renderGenres [] (renderGenres [] initial_state))) \<noteq> 1"
  by (simp add: renderGenres_Nil alive_charts_def initial_state_def)

theorem renderGenres_chart_instances_witness:
  "chart_inv initial_state \<and>
   length (alive_charts (renderGenres_calls [[(''rock'', 3)], [], [(''pop'', 2), (''rock'', 1)]] initial_state)) \<le> 1 \<and>
   genreChart (renderGenres [(''rock'', 3)] initial_state) = Some 0 \<and>
   0 < length (charts (renderGenres [(''rock'', 3)] initial_state)) \<and>
   [(''pop'', 2::nat)] \<noteq> [] \<and>
   chart_destroyed (charts (renderGenres [(''pop'', 2)] (renderGenres [(''rock'', 3)] initial_state)) ! 0) \<and>
   genreChart (renderGenres [(''pop'', 2)] (renderGenres [(''rock'', 3)] initial_state)) = Some 1 \<and>
   chart_inv (renderGenres [(''rock'', 3)] initial_state) \<and>
   \<not> chart_destroyed (charts (renderGenres [(''rock'', 3)] initial_state) ! 0) \<and>
   chart_destroyed (charts (renderGenres_destroy
      (renderGenres_list [(''pop'', 2)] (renderGenres [(''rock'', 3)] initial_state))) ! 0) \<and>
   length (charts (renderGenres_destroy
      (renderGenres_list [(''pop'', 2)] (renderGenres [(''rock'', 3)] initial_state)))) = 1 \<and>
   alive_charts (renderGenres_destroy
      (renderGenres_list [(''pop'', 2)] (renderGenres [(''rock'', 3)] initial_state))) = [] \<and>
   renderGenres [(''pop'', 2)] (renderGenres [(''rock'', 3)] initial_state) =
     renderGenres_construct [(''pop'', 2)] (renderGenres_destroy
       (renderGenres_list [(''pop'', 2)] (renderGenres [(''rock'', 3)] initial_state)))"
proof -
  have a: "chart_inv initial_state" by (rule chart_inv_initial)
  have b: "genreChart (renderGenres [(''rock'', 3)] initial_state) = Some 0"
    "0 < length (charts (renderGenres [(''rock'', 3)] initial_state))"
    by (simp_all add: renderGenres_Cons Let_def initial_state_def)
  have c: "length (charts (renderGenres [(''rock'', 3)] initial_state)) = 1"
    by (simp add: renderGenres_Cons Let_def initial_state_def)
  have d: "chart_inv (renderGenres [(''rock'', 3)] initial_state)"
    by (intro chart_inv_renderGenres chart_inv_initial)
  have e: "\<not> chart_destroyed (charts (renderGenres [(''rock'', 3)] initial_state) ! 0)"
    by (simp add: renderGenres_Cons Let_def initial_state_def new_chart_def)
  have ne: "[(''pop'', 2::nat)] \<noteq> []" by simp
  note t1 = renderGenres_chart_instances
    [of initial_state "[[(''rock'', 3)], [], [(''pop'', 2), (''rock'', 1)]]"]
  note t2 = renderGenres_chart_instances
    [of "renderGenres [(''rock'', 3)] initial_state" "[]" "[]" "[]" 0 "[(''pop'', 2)]",
      unfolded c]
  have w1: "length (alive_charts (renderGenres_calls
      [[(''rock'', 3)], [], [(''pop'', 2), (''rock'', 1)]] initial_state)) \<le> 1"
    using t1 a by blast
  have w2: "chart_destroyed (charts (renderGenres [(''pop'', 2)]
        (renderGenres [(''rock'', 3)] initial_state)) ! 0)"
    "genreChart (renderGenres [(''pop'', 2)] (renderGenres [(''rock'', 3)] initial_state)) = Some 1"
    using t2 b ne by blast+
  have w3: "chart_destroyed (charts (renderGenres_destroy
        (renderGenres_list [(''pop'', 2)] (renderGenres [(''rock'', 3)] initial_state))) ! 0)"
    "length (charts (renderGenres_destroy
        (renderGenres_list [(''pop'', 2)] (renderGenres [(''rock'', 3)] initial_state)))) = 1"
    using t2 b by blast+
  have w4: "alive_charts (renderGenres_destroy
        (renderGenres_list [(''pop'', 2)] (renderGenres [(''rock'', 3)] initial_state))) = []"
    using t2 d by blast
  have w5: "renderGenres [(''pop'', 2)] (renderGenres [(''rock'', 3)] initial_state) =
     renderGenres_construct [(''pop'', 2)] (renderGenres_destroy
       (renderGenres_list [(''pop'', 2)] (renderGenres [(''rock'', 3)] initial_state)))"
    using t2 ne by blast
  show ?thesis
    by (intro conjI a b d e ne w1 w2 w3 w4 w5)
qed

section \<open>One preview\<close>

lemma playing_from_empty_iff:
  "(playing_from k s = []) = (\<forall>i < length (audios s). k \<le> i \<longrightarrow> audio_paused (audios s ! i))"
proof
  assume e: "playing_from k s = []"
  show "\<forall>i < length (audios s). k \<le> i \<longrightarrow> audio_paused (audios s ! i)"
  proof (intro allI impI)
    fix i assume i: "i < length (audios s)" "k \<le> i"
    then have "audios s ! i = drop k (audios s) ! (i - k)" by simp
    moreover have "i - k < length (drop k (audios s))" using i by simp
    ultimately have "audios s ! i \<in> set (drop k (audios s))" by (metis nth_mem)
    then show "audio_paused (audios s ! i)"
      using e unfolding playing_from_def filter_empty_conv by blast
  qed
next
  assume a: "\<forall>i < length (audios s). k \<le> i \<longrightarrow> audio_paused (audios s ! i)"
  have "\<forall>x \<in> set (drop k (audios s)). audio_paused x"
  proof
    fix x assume "x \<in> set (drop k (audios s))"
    then obtain j where j: "j < length (drop k (audios s))" "x = drop k (audios s) ! j"
      by (metis in_set_conv_nth)
    then have "x = audios s ! (k + j)" "k + j < length (audios s)" by simp_all
    then show "audio_paused x" using a by simp
  qed
  then show "playing_from k s = []"
    unfolding playing_from_def filter_empty_conv by simp
qed

lemma audio_inv_at_most_one:
  assumes "audio_inv k s"
  shows "length (playing_from k s) \<le> 1"
  unfolding playing_from_def
proof (rule filter_at_most_one)
  fix i j
  assume "i < length (drop k (audios s))" "j < length (drop k (audios s))"
    and "\<not> audio_paused (drop k (audios s) ! i)" "\<not> audio_paused (drop k (audios s) ! j)"
  then have "currentAudio s = Some (k + i)" "currentAudio s = Some (k + j)"
    using assms by (simp_all add: audio_inv_def)
  then show "i = j" by simp
qed

lemma audio_pause_fields:
  "length (audios (audio_pause a s)) = length (audios s)"
  "currentAudio (audio_pause a s) = currentAudio s"
  "recommendationsGrid (audio_pause a s) = recommendationsGrid s"
  by (simp_all add: audio_pause_def)

lemma audio_pause_nth:
  "i < length (audios s) \<Longrightarrow>
     audio_paused (audios (audio_pause a s) ! i) = (i = a \<or> audio_paused (audios s ! i))"
  by (simp add: audio_pause_def nth_list_update)

lemma audio_inv_pause:
  assumes "audio_inv k s"
  shows "audio_inv k (audio_pause a s)"
  unfolding audio_inv_def
proof (intro allI impI)
  fix i
  assume i: "i < length (audios (audio_pause a s))"
    and p: "k \<le> i \<and> \<not> audio_paused (audios (audio_pause a s) ! i)"
  have il: "i < length (audios s)" using i by (simp add: audio_pause_fields)
  then have "\<not> audio_paused (audios s ! i)" using p by (simp add: audio_pause_nth)
  then have "currentAudio s = Some i" using assms il p by (simp add: audio_inv_def)
  then show "currentAudio (audio_pause a s) = Some i" by (simp add: audio_pause_fields)
qed

lemma stop_current_eq:
  "stop_current url s =
     (case currentAudio s of
        None \<Rightarrow> (s, False)
      | Some a \<Rightarrow>
          if a < length (audios s) \<and> \<not> audio_paused (audios s ! a)
          then (if audio_url (audios s ! a) = url
                then ((audio_pause a s)\<lparr>currentAudio := None\<rparr>, True)
                else (audio_pause a s, False))
          else (s, False))"
  by (simp add: stop_current_def Let_def split: option.splits)

lemma stop_current_quiet:
  assumes "audio_inv k s"
  shows "playing_from k (fst (stop_current url s)) = []"
    and "length (audios (fst (stop_current url s))) = length (audios s)"
    and "recommendationsGrid (fst (stop_current url s)) = recommendationsGrid s"
    and "snd (stop_current url s) \<longrightarrow> currentAudio (fst (stop_current url s)) = None"
proof -
  show "length (audios (fst (stop_current url s))) = length (audios s)"
    by (simp add: stop_current_eq audio_pause_fields split: option.splits)
  show "recommendationsGrid (fst (stop_current url s)) = recommendationsGrid s"
    by (simp add: stop_current_eq audio_pause_fields split: option.splits)
  show "snd (stop_current url s) \<longrightarrow> currentAudio (fst (stop_current url s)) = None"
    by (simp add: stop_current_eq split: option.splits)
  show "playing_from k (fst (stop_current url s)) = []"
  proof (cases "currentAudio s")
    case None
    then have "fst (stop_current url s) = s" by (simp add: stop_current_eq)
    moreover have "playing_from k s = []"
      unfolding playing_from_empty_iff using assms None by (auto simp add: audio_inv_def)
    ultimately show ?thesis by simp
  next
    case (Some a)
    show ?thesis
    proof (cases "a < length (audios s) \<and> \<not> audio_paused (audios s ! a)")
      case True
      then have au: "audios (fst (stop_current url s)) = audios (audio_pause a s)"
        using Some by (simp add: stop_current_eq)
      have "\<forall>i < length (audios (audio_pause a s)). k \<le> i \<longrightarrow>
              audio_paused (audios (audio_pause a s) ! i)"
      proof (intro allI impI)
        fix i assume i: "i < length (audios (audio_pause a s))" "k \<le> i"
        then have il: "i < length (audios s)" by (simp add: audio_pause_fields)
        show "audio_paused (audios (audio_pause a s) ! i)"
        proof (cases "i = a")
          case True
          then show ?thesis using il by (simp add: audio_pause_nth)
        next
          case False
          then have "audio_paused (audios s ! i)"
            using assms Some il i(2) by (auto simp add: audio_inv_def)
          then show ?thesis using il by (simp add: audio_pause_nth)
        qed
      qed
      then show ?thesis
        unfolding playing_from_empty_iff au by simp
    next
      case False
      then have "fst (stop_current url s) = s" using Some by (auto simp add: stop_current_eq)
      moreover have "playing_from k s = []"
        unfolding playing_from_empty_iff
      proof (intro allI impI)
        fix i assume i: "i < length (audios s)" "k \<le> i"
        show "audio_paused (audios s ! i)"
        proof (rule ccontr)
          assume "\<not> audio_paused (audios s ! i)"
          then have "currentAudio s = Some i" using assms i by (simp add: audio_inv_def)
          then have "i = a" using Some by simp
          then show False using False i \<open>\<not> audio_paused (audios s ! i)\<close> by simp
        qed
      qed
      ultimately show ?thesis by simp
    qed
  qed
qed

lemma audio_inv_start:
  assumes "playing_from k s = []"
  shows "audio_inv k (start_preview url s)"
  using assms
  by (auto simp add: playing_from_empty_iff audio_inv_def start_preview_def nth_append)

lemma audio_inv_quiet:
  assumes "playing_from k s = []"
  shows "audio_inv k s"
  using assms by (auto simp add: playing_from_empty_iff audio_inv_def)

lemma audio_inv_click:
  assumes "audio_inv k s"
  shows "audio_inv k (preview_click b s)"
proof -
  obtain s1 r where sc: "stop_current (preview_urls (recommendationsGrid s) ! b) s = (s1, r)"
    by (cases "stop_current (preview_urls (recommendationsGrid s) ! b) s")
  have q: "playing_from k s1 = []"
    using stop_current_quiet(1) [OF assms, of "preview_urls (recommendationsGrid s) ! b"] sc by simp
  show ?thesis
    using assms q
    by (simp add: preview_click_def Let_def sc audio_inv_start audio_inv_quiet)
qed

lemma audio_inv_event: "audio_inv k s \<Longrightarrow> audio_inv k (handle_event s ev)"
  by (cases ev) (simp_all add: audio_inv_click audio_ended_def audio_inv_pause)

lemma audio_inv_run: "audio_inv k s \<Longrightarrow> audio_inv k (run_events evs s)"
  unfolding run_events_def
  by (induction evs arbitrary: s) (simp_all add: audio_inv_event)

lemma audio_inv_fresh: "audio_inv (length (audios s)) s"
  by (simp add: audio_inv_def)

lemma playing_from_start:
  assumes "playing_from k s = []" "k \<le> length (audios s)"
  shows "playing_from k (start_preview url s)
           = [\<lparr> audio_url = url, audio_volume = 1 / 2, audio_paused = False \<rparr>]"
  using assms by (simp add: playing_from_def start_preview_def)

text \<open>
  Among the previews started by the click handlers one call of
  \<open>renderRecommendations\<close> attaches, at most one is playing after any sequence of
  clicks and of playbacks reaching their end. While preview \<open>a\<close> is playing, a click
  on a button pauses \<open>a\<close> in the first phase of the handler, so that nothing is
  playing before the second phase; a button with another URL then starts its preview,
  the only one playing; a button with the URL of \<open>a\<close> clears \<open>currentAudio\<close> and
  leaves nothing playing.
\<close>

lemma preview_mutual_exclusion:
  "length (playing_from (length (audios (renderRecommendations d s0)))
             (run_events evs (renderRecommendations d s0))) \<le> 1 \<and>
   (audio_inv k s \<and> k \<le> a \<and> a < length (audios s) \<and> currentAudio s = Some a \<and>
    \<not> audio_paused (audios s ! a) \<and> b < length (preview_urls (recommendationsGrid s)) \<longrightarrow>
      (let url = preview_urls (recommendationsGrid s) ! b;
           stopped = fst (stop_current url s);
           after = preview_click b s
       in audio_paused (audios stopped ! a) \<and>
          playing_from k stopped = [] \<and>
          audio_paused (audios after ! a) \<and>
          (if url = audio_url (audios s ! a)
           then after = stopped \<and> currentAudio after = None \<and> playing_from k after = []
           else after = start_preview url stopped \<and>
                currentAudio after = Some (length (audios s)) \<and>
                playing_from k after
                  = [\<lparr> audio_url = url, audio_volume = 1 / 2, audio_paused = False \<rparr>])))"
proof (intro conjI impI)
  show "length (playing_from (length (audios (renderRecommendations d s0)))
             (run_events evs (renderRecommendations d s0))) \<le> 1"
    by (intro audio_inv_at_most_one audio_inv_run audio_inv_fresh)
next
  assume h: "audio_inv k s \<and> k \<le> a \<and> a < length (audios s) \<and> currentAudio s = Some a \<and>
    \<not> audio_paused (audios s ! a) \<and> b < length (preview_urls (recommendationsGrid s))"
  define url where "url = preview_urls (recommendationsGrid s) ! b"
  define stopped where "stopped = fst (stop_current url s)"
  have inv: "audio_inv k s" using h by simp
  have q: "playing_from k stopped = []"
    unfolding stopped_def by (rule stop_current_quiet(1) [OF inv])
  have len: "length (audios stopped) = length (audios s)"
    unfolding stopped_def by (rule stop_current_quiet(2) [OF inv])
  have pa: "audio_paused (audios stopped ! a)"
    using q h len unfolding playing_from_empty_iff by simp
  have sc: "stop_current url s =
              (if url = audio_url (audios s ! a)
               then ((audio_pause a s)\<lparr>currentAudio := None\<rparr>, True)
               else (audio_pause a s, False))"
    using h by (simp add: stop_current_def Let_def)
  have same: "preview_click b s = stopped \<and> currentAudio (preview_click b s) = None"
    if "url = audio_url (audios s ! a)"
    using that h sc by (simp add: preview_click_def Let_def stopped_def url_def [symmetric])
  have other: "preview_click b s = start_preview url stopped"
    if "url \<noteq> audio_url (audios s ! a)"
    using that h sc by (simp add: preview_click_def Let_def stopped_def url_def [symmetric])
  have k: "k \<le> length (audios stopped)" using h len by simp
  have after_a: "audio_paused (audios (preview_click b s) ! a)"
  proof (cases "url = audio_url (audios s ! a)")
    case True
    then show ?thesis using same pa by simp
  next
    case False
    then show ?thesis using other pa h len by (simp add: start_preview_def nth_append)
  qed
  show "let url = preview_urls (recommendationsGrid s) ! b;
           stopped = fst (stop_current url s);
           after = preview_click b s
       in audio_paused (audios stopped ! a) \<and>
          playing_from k stopped = [] \<and>
          audio_paused (audios after ! a) \<and>
          (if url = audio_url (audios s ! a)
           then after = stopped \<and> currentAudio after = None \<and> playing_from k after = []
           else after = start_preview url stopped \<and>
                currentAudio after = Some (length (audios s)) \<and>
                playing_from k after
                  = [\<lparr> audio_url = url, audio_volume = 1 / 2, audio_paused = False \<rparr>])"
    unfolding Let_def url_def [symmetric] stopped_def [symmetric]
    using pa q after_a same other playing_from_start [OF q k, of url] len
    by (auto simp add: start_preview_def)
qed

lemma sample_rendered:
  "preview_urls (recommendationsGrid (renderRecommendations sample_recs initial_state))
     = [''/previews/a.mp3'', ''/previews/b.mp3'']"
  "audios (renderRecommendations sample_recs initial_state) = []"
  "currentAudio (renderRecommendations sample_recs initial_state) = None"
  by (simp_all add: renderRecommendations_eq sample_recs_def Let_def preview_urls_def rec_card_def
      sample_track_def truthy_def tpl_def dataset_url_def play_icon_def initial_state_def)

lemma sample_playing_eq:
  "audios sample_playing = [\<lparr> audio_url = ''/previews/a.mp3'', audio_volume = 1 / 2, audio_paused = False \<rparr>]"
  "currentAudio sample_playing = Some 0"
  "recommendationsGrid sample_playing = recommendationsGrid (renderRecommendations sample_recs initial_state)"
  by (simp_all add: sample_playing_def run_events_def preview_click_def sample_rendered Let_def
      stop_current_def start_preview_def)

lemma preview_mutual_exclusion_example:
  "audio_inv 0 sample_playing \<and> (0::nat) \<le> 0 \<and> 0 < length (audios sample_playing) \<and>
   currentAudio sample_playing = Some 0 \<and> \<not> audio_paused (audios sample_playing ! 0) \<and>
   1 < length (preview_urls (recommendationsGrid sample_playing)) \<and>
   audio_paused (audios (preview_click 1 sample_playing) ! 0) \<and>
   playing_from 0 (preview_click 1 sample_playing)
     = [\<lparr> audio_url = ''/previews/b.mp3'', audio_volume = 1 / 2, audio_paused = False \<rparr>] \<and>
   playing_from 0 (preview_click 0 sample_playing) = []"
proof -
  have "audio_inv (length (audios (renderRecommendations sample_recs initial_state))) sample_playing"
    unfolding sample_playing_def by (intro audio_inv_run audio_inv_fresh)
  then have inv: "audio_inv 0 sample_playing" by (simp add: sample_rendered)
  have h1: "audio_inv 0 sample_playing \<and> (0::nat) \<le> 0 \<and> 0 < length (audios sample_playing) \<and>
     currentAudio sample_playing = Some 0 \<and> \<not> audio_paused (audios sample_playing ! 0) \<and>
     1 < length (preview_urls (recommendationsGrid sample_playing))"
    using inv by (simp add: sample_playing_eq sample_rendered)
  then have h0: "audio_inv 0 sample_playing \<and> (0::nat) \<le> 0 \<and> 0 < length (audios sample_playing) \<and>
     currentAudio sample_playing = Some 0 \<and> \<not> audio_paused (audios sample_playing ! 0) \<and>
     0 < length (preview_urls (recommendationsGrid sample_playing))"
    by linarith
  have u1: "preview_urls (recommendationsGrid sample_playing) ! 1 = ''/previews/b.mp3''"
    and u0: "preview_urls (recommendationsGrid sample_playing) ! 0 = ''/previews/a.mp3''"
    and ua: "audio_url (audios sample_playing ! 0) = ''/previews/a.mp3''"
    by (simp_all add: sample_playing_eq sample_rendered)
  note t1 = preview_mutual_exclusion [of sample_recs initial_state "[]" 0 sample_playing 0 1,
      THEN conjunct2, rule_format, OF h1, unfolded Let_def u1 ua]
  note t0 = preview_mutual_exclusion [of sample_recs initial_state "[]" 0 sample_playing 0 0,
      THEN conjunct2, rule_format, OF h0, unfolded Let_def u0 ua]
  have ne: "''/previews/b.mp3'' \<noteq> ''/previews/a.mp3''" by simp
  have b1: "audio_paused (audios (preview_click 1 sample_playing) ! 0)"
    using t1 by blast
  have b2: "playing_from 0 (preview_click 1 sample_playing)
       = [\<lparr> audio_url = ''/previews/b.mp3'', audio_volume = 1 / 2, audio_paused = False \<rparr>]"
    using t1 ne by (auto split: if_splits)
  have a: "playing_from 0 (preview_click 0 sample_playing) = []"
    using t0 by (auto split: if_splits)
  show ?thesis using h1 a b1 b2 by blast
qed

text \<open>Loading the sample recommendations, from any state, and a click with no current audio.\<close>

lemma loadRecommendations_sample:
  "preview_urls (recommendationsGrid (loadRecommendations sample_env s))
     = [''/previews/a.mp3'', ''/previews/b.mp3'']"
  "currentAudio (loadRecommendations sample_env s) = None"
  "audios (loadRecommendations sample_env s) = audios s"
proof -
  have f: "apiFetch_settles sample_env ''/api/recommendations''
             = Inr (RecommendationsJson sample_recs)"
    by (simp add: apiFetch_settles_def sample_env_def response_ok_def)
  have l: "loadRecommendations sample_env s =
             renderRecommendations sample_recs
               (s\<lparr>recommendationsGrid := [rec_loading],
                   requests := requests s @ [''/api/recommendations'']\<rparr>)"
    by (simp add: loadRecommendations_def apiFetch_def f recs_of_def)
  show "preview_urls (recommendationsGrid (loadRecommendations sample_env s))
     = [''/previews/a.mp3'', ''/previews/b.mp3'']"
    unfolding l
    by (simp add: renderRecommendations_eq sample_recs_def Let_def preview_urls_def rec_card_def
        sample_track_def truthy_def tpl_def dataset_url_def play_icon_def)
  show "currentAudio (loadRecommendations sample_env s) = None"
    unfolding l by (simp add: renderRecommendations_eq Let_def sample_recs_def)
  show "audios (loadRecommendations sample_env s) = audios s"
    unfolding l by (simp add: renderRecommendations_eq Let_def sample_recs_def)
qed

lemma preview_click_fresh:
  assumes "currentAudio s = None" "b < length (preview_urls (recommendationsGrid s))"
  shows "audios (preview_click b s) =
           audios s @ [\<lparr> audio_url = preview_urls (recommendationsGrid s) ! b,
                          audio_volume = 1 / 2, audio_paused = False \<rparr>]"
  using assms by (simp add: preview_click_def Let_def stop_current_def start_preview_def)

text \<open>
  Claim C3 (at most one preview is playing at any time; starting preview B while
  preview A is playing pauses A first) fails on the code. The variable
  \<open>currentAudio\<close> belongs to one call of \<open>renderRecommendations\<close>, so a preview still
  playing when the recommendations are loaded again (the refresh button) is out of
  the reach of the new handlers: the next click starts a second preview beside it.
  Here the recommendations are loaded, the first preview is started, the
  recommendations are loaded again and the second preview is started: both play.
\<close>

theorem refresh_overlapping_previews:
  "playing_from 0
     (preview_click 1 (loadRecommendations sample_env
       (preview_click 0 (loadRecommendations sample_env initial_state))))
     = [\<lparr> audio_url = ''/previews/a.mp3'', audio_volume = 1 / 2, audio_paused = False \<rparr>,
        \<lparr> audio_url = ''/previews/b.mp3'', audio_volume = 1 / 2, audio_paused = False \<rparr>]"
proof -
  define s1 where "s1 = loadRecommendations sample_env initial_state"
  define s2 where "s2 = preview_click 0 s1"
  define s3 where "s3 = loadRecommendations sample_env s2"
  have "audios s1 = []"
    unfolding s1_def by (simp add: loadRecommendations_sample initial_state_def)
  then have "audios s2 = [\<lparr> audio_url = ''/previews/a.mp3'', audio_volume = 1 / 2, audio_paused = False \<rparr>]"
    unfolding s2_def s1_def
    by (simp add: preview_click_fresh loadRecommendations_sample)
  then have "audios s3 = [\<lparr> audio_url = ''/previews/a.mp3'', audio_volume = 1 / 2, audio_paused = False \<rparr>]"
    unfolding s3_def by (simp add: loadRecommendations_sample)
  then have "audios (preview_click 1 s3) =
      [\<lparr> audio_url = ''/previews/a.mp3'', audio_volume = 1 / 2, audio_paused = False \<rparr>,
       \<lparr> audio_url = ''/previews/b.mp3'', audio_volume = 1 / 2, audio_paused = False \<rparr>]"
    unfolding s3_def
    by (simp add: preview_click_fresh loadRecommendations_sample)
  then show ?thesis
    unfolding s3_def s2_def s1_def by (simp add: playing_from_def)
qed

end
